theory Spec2Isabelle
  imports Main "HOL-Library.AList" "HOL-Library.Sublist" "HOL-Library.Word"
begin

section \<open>The data coordinator of the Atlantic heat pump explorer\<close>

text \<open>
  A shallow embedding of \<^verbatim>\<open>custom_components/atlantic_heat_pump_explorer/coordinator.py\<close>.
  The coordinator mutates one snapshot object in place, reads the wall clock and writes to
  a logger; the model threads one record of all of that through every method. A method
  that can raise returns a pair: the outcome (\<open>Inl\<close> the exception, \<open>Inr\<close> the
  value) and the state as the method left it, since Python keeps every mutation made before
  the exception.
\<close>

subsection \<open>Python values, exceptions and the runtime\<close>

text \<open>
  Exceptions are instances of \<^verbatim>\<open>Exception\<close>: one raised by library code or by a
  property getter (with its \<^verbatim>\<open>str()\<close>), the \<^verbatim>\<open>TypeError\<close> of iterating
  \<^verbatim>\<open>None\<close>, the \<^verbatim>\<open>KeyError\<close> of a missing dictionary key, and the coordinator's own \<^verbatim>\<open>UpdateFailed\<close> with its cause.
\<close>

datatype exn = Raised string | TypeError string | KeyError string | UpdateFailed string exn

fun exn_str :: "exn \<Rightarrow> string" where
  "exn_str (Raised m) = m"
| "exn_str (TypeError m) = m"
| "exn_str (KeyError k) = CHR 0x27 # k @ [CHR 0x27]"
| "exn_str (UpdateFailed m c) = m"

text \<open>\<^verbatim>\<open>TypeError: 'NoneType' object is not iterable\<close>\<close>

definition not_iterable :: exn where
  "not_iterable =
     TypeError (CHR 0x27 # ''NoneType'' @ CHR 0x27 # '' object is not iterable'')"

text \<open>
  The values the reflection sweep tells apart with \<^verbatim>\<open>isinstance\<close> and
  \<^verbatim>\<open>callable\<close>. A float is its binary64 bit pattern; a callable and any other object
  carry their class name (and an identity).
\<close>

datatype pyval =
    PNone
  | PBool bool
  | PInt int
  | PFloat "64 word"
  | PStr string
  | PList "pyval list"
  | PTuple "pyval list"
  | PDict "(pyval \<times> pyval) list"
  | PCallable string
  | PObj string nat

text \<open>A \<^verbatim>\<open>dict[str, Any]\<close> in insertion order; \<open>AList.update\<close> is item assignment.\<close>

type_synonym dict = "(string \<times> pyval) list"

text \<open>\<^verbatim>\<open>datetime.now()\<close>: naive local time, in microseconds.\<close>

type_synonym datetime = int

text \<open>
  What the repository takes from outside: \<^verbatim>\<open>str(v)\<close> on a value that is not a scalar
  (it may raise), \<^verbatim>\<open>v != w\<close> on state values, and the wall clock, as the reading that
  the k-th call of \<^verbatim>\<open>datetime.now()\<close> returns.
\<close>

record runtime =
  py_str :: "pyval \<Rightarrow> exn + string"
  py_ne :: "pyval \<Rightarrow> pyval \<Rightarrow> bool"
  clock :: "nat \<Rightarrow> datetime"

fun type_name :: "pyval \<Rightarrow> string" where
  "type_name PNone = ''NoneType''"
| "type_name (PBool b) = ''bool''"
| "type_name (PInt i) = ''int''"
| "type_name (PFloat f) = ''float''"
| "type_name (PStr s) = ''str''"
| "type_name (PList vs) = ''list''"
| "type_name (PTuple vs) = ''tuple''"
| "type_name (PDict kvs) = ''dict''"
| "type_name (PCallable c) = c"
| "type_name (PObj c i) = c"

subsection \<open>The reflection sweep\<close>

text \<open>
  An object as the sweep sees it: the names \<^verbatim>\<open>dir(obj)\<close> lists, each with what
  \<^verbatim>\<open>getattr(obj, name)\<close> does, raise or return a value.
\<close>

type_synonym pyobj = "(string \<times> (exn + pyval)) list"

fun is_scalar :: "pyval \<Rightarrow> bool" where
  "is_scalar (PStr s) = True"
| "is_scalar (PInt i) = True"
| "is_scalar (PFloat f) = True"
| "is_scalar (PBool b) = True"
| "is_scalar PNone = True"
| "is_scalar v = False"

definition safe_serialize :: "runtime \<Rightarrow> pyval \<Rightarrow> exn + pyval" where
  "safe_serialize rt v =
     (if is_scalar v then Inr v
      else case py_str rt v of Inl e \<Rightarrow> Inl e | Inr s \<Rightarrow> Inr (PStr s))"

text \<open>The two comprehensions: the first element that raises ends them.\<close>

fun serialize_list :: "runtime \<Rightarrow> pyval list \<Rightarrow> exn + pyval list" where
  "serialize_list rt [] = Inr []"
| "serialize_list rt (v # vs) =
     (case safe_serialize rt v of
        Inl e \<Rightarrow> Inl e
      | Inr j \<Rightarrow> (case serialize_list rt vs of Inl e \<Rightarrow> Inl e | Inr js \<Rightarrow> Inr (j # js)))"

fun serialize_items :: "runtime \<Rightarrow> (pyval \<times> pyval) list \<Rightarrow> exn + (pyval \<times> pyval) list" where
  "serialize_items rt [] = Inr []"
| "serialize_items rt ((k, v) # kvs) =
     (case safe_serialize rt v of
        Inl e \<Rightarrow> Inl e
      | Inr j \<Rightarrow> (case serialize_items rt kvs of Inl e \<Rightarrow> Inl e | Inr js \<Rightarrow> Inr ((k, j) # js)))"

text \<open>
  The body of the \<^verbatim>\<open>try\<close>: \<open>Inr None\<close> is \<^verbatim>\<open>continue\<close>, \<open>Inr (Some j)\<close> is
  \<^verbatim>\<open>result[attr_name] = j\<close>.
\<close>

fun try_body :: "runtime \<Rightarrow> exn + pyval \<Rightarrow> exn + pyval option" where
  "try_body rt (Inl e) = Inl e"
| "try_body rt (Inr (PCallable c)) = Inr None"
| "try_body rt (Inr (PList vs)) =
     (case serialize_list rt vs of Inl e \<Rightarrow> Inl e | Inr js \<Rightarrow> Inr (Some (PList js)))"
| "try_body rt (Inr (PTuple vs)) =
     (case serialize_list rt vs of Inl e \<Rightarrow> Inl e | Inr js \<Rightarrow> Inr (Some (PList js)))"
| "try_body rt (Inr (PDict kvs)) =
     (case serialize_items rt kvs of Inl e \<Rightarrow> Inl e | Inr js \<Rightarrow> Inr (Some (PDict js)))"
| "try_body rt (Inr (PObj c i)) =
     (case py_str rt (PObj c i) of Inl e \<Rightarrow> Inl e | Inr s \<Rightarrow> Inr (Some (PStr s)))"
| "try_body rt (Inr v) = Inr (Some v)"

definition error_marker :: "exn \<Rightarrow> pyval" where
  "error_marker e = PStr (''<error: '' @ exn_str e @ ''>'')"

text \<open>\<^verbatim>\<open>try: ... except Exception as e: result[attr_name] = f"<error: {e}>"\<close>\<close>

definition try_except :: "runtime \<Rightarrow> exn + pyval \<Rightarrow> exn + pyval option" where
  "try_except rt got =
     (case try_body rt got of Inl e \<Rightarrow> Inr (Some (error_marker e)) | Inr r \<Rightarrow> Inr r)"

definition startswith_underscore :: "string \<Rightarrow> bool" where
  "startswith_underscore attr_name =
     (case attr_name of [] \<Rightarrow> False | c # cs \<Rightarrow> c = CHR ''_'')"

fun extract_loop :: "runtime \<Rightarrow> pyobj \<Rightarrow> dict \<Rightarrow> exn + dict" where
  "extract_loop rt [] result = Inr result"
| "extract_loop rt ((attr_name, got) # rest) result =
     (if startswith_underscore attr_name then extract_loop rt rest result
      else case try_except rt got of
             Inl e \<Rightarrow> Inl e
           | Inr None \<Rightarrow> extract_loop rt rest result
           | Inr (Some j) \<Rightarrow> extract_loop rt rest (AList.update attr_name j result))"

definition extract_all_attributes :: "runtime \<Rightarrow> pyobj \<Rightarrow> exn + dict" where
  "extract_all_attributes rt obj = extract_loop rt obj []"

subsection \<open>The external model: Setup, Device, Event\<close>

text \<open>
  The objects of the vendor client library, with the fields the coordinator reads. An
  optional field is \<open>None\<close> where Python has \<^verbatim>\<open>None\<close> or no such attribute. Fields
  that the coordinator passes through \<^verbatim>\<open>str()\<close> hold that string. \<open>dev_reflected\<close>,
  \<open>ev_reflected\<close>: the object as the reflection sweep sees it.
\<close>

record state_obj =
  st_name :: string
  st_value :: pyval
  st_str :: string

record attr_obj =
  at_name :: string
  at_value :: pyval

record param_obj =
  par_name :: "pyval option"
  par_type :: "pyval option"

record command_obj =
  cmd_command_name :: "pyval option"
  cmd_str :: string
  cmd_parameters :: "param_obj list option"

record state_def_obj =
  sd_qualified_name :: "pyval option"
  sd_str :: string
  sd_type :: "pyval option"

record definition_obj =
  def_commands :: "command_obj list option"
  def_states :: "state_def_obj list option"

record device =
  dev_device_url :: string
  dev_label :: string
  dev_widget :: string
  dev_ui_class :: string
  dev_controllable_name :: "string option"
  dev_protocol :: "string option"
  dev_type :: "string option"
  dev_available :: bool
  dev_states :: "state_obj list option"
  dev_attributes :: "attr_obj list option"
  dev_definition :: "definition_obj option"
  dev_reflected :: pyobj

record setup_obj =
  su_gateways :: "pyobj list"
  su_devices :: "device list"

datatype event_name =
    DEVICE_STATE_CHANGED
  | DEVICE_AVAILABLE
  | DEVICE_UNAVAILABLE
  | DEVICE_CREATED
  | DEVICE_UPDATED
  | OTHER_EVENT string

text \<open>
  One element of \<^verbatim>\<open>event.device_states\<close> as the coordinator reads it: a device URL and
  a list of states. The coordinator iterates \<open>ds_states\<close> without a guard, so \<open>None\<close>
  there is a \<^verbatim>\<open>TypeError\<close>.
\<close>

record device_state =
  ds_device_url :: string
  ds_states :: "state_obj list option"

record event =
  ev_name :: event_name
  ev_device_url :: "string option"
  ev_device_states :: "device_state list option"
  ev_reflected :: pyobj

subsection \<open>The snapshot\<close>

record state_entry =
  se_value :: pyval
  se_type :: string
  se_raw :: string

record attr_entry =
  ae_value :: pyval
  ae_type :: string

record param_info =
  pi_name :: pyval
  pi_type :: pyval

record cmd_info =
  ci_name :: pyval
  ci_parameters :: "param_info list"

record state_def_info =
  sdi_name :: pyval
  sdi_type :: pyval

record device_data =
  device_url :: string
  label :: string
  widget :: string
  ui_class :: string
  controllable_name :: string
  protocol :: string
  device_type :: string
  available :: bool
  states :: "string \<rightharpoonup> state_entry"
  attributes :: "string \<rightharpoonup> attr_entry"
  commands :: "cmd_info list"
  state_definitions :: "state_def_info list"
  raw_data :: dict
  last_updated :: datetime

text \<open>
  An entry of the event log. \<open>timestamp\<close> is the clock reading (the source stores its
  ISO string) and \<open>name\<close> the enum member (the source stores its \<^verbatim>\<open>str()\<close>).
\<close>

record event_entry =
  timestamp :: datetime
  event_number :: nat
  name :: event_name
  raw :: dict

record explorer_data =
  devices :: "string \<rightharpoonup> device_data"
  gateways :: "dict list"
  events_log :: "event_entry list"
  raw_api_responses :: "dict list"
  last_full_refresh :: "datetime option"

text \<open>
  What the coordinator writes to \<^verbatim>\<open>LOGGER\<close>, one constructor per call site, with
  the arguments of the call. The lines for a created and an updated device carry
  \<^verbatim>\<open>getattr(event, 'device_url', 'unknown')\<close> as the event's optional URL.
\<close>

datatype log_record =
    ProcessedGateway dict
  | FullSetupRefresh
  | ErrorFetching exn
  | EventInfo nat event_name
  | EventDetails event_entry
  | NewDeviceCreated "string option"
  | DeviceUpdated "string option"
  | StateChange string string pyval pyval
  | AvailabilityChange string bool

text \<open>
  The coordinator (\<open>data\<close> is \<^verbatim>\<open>self._data\<close>, \<open>event_count\<close> is
  \<^verbatim>\<open>self._event_count\<close>) and its surroundings: how many times the clock has been read,
  and the logger's output.
\<close>

record coordinator =
  data :: explorer_data
  event_count :: nat
  now_calls :: nat
  logged :: "log_record list"

definition now :: "runtime \<Rightarrow> coordinator \<Rightarrow> datetime \<times> coordinator" where
  "now rt s = (clock rt (now_calls s), s\<lparr>now_calls := Suc (now_calls s)\<rparr>)"

definition log_line :: "log_record \<Rightarrow> coordinator \<Rightarrow> coordinator" where
  "log_line r s = s\<lparr>logged := logged s @ [r]\<rparr>"

subsection \<open>The Setup normalizer\<close>

definition state_entry_of :: "state_obj \<Rightarrow> state_entry" where
  "state_entry_of state =
     \<lparr>se_value = st_value state, se_type = type_name (st_value state), se_raw = st_str state\<rparr>"

definition attr_entry_of :: "attr_obj \<Rightarrow> attr_entry" where
  "attr_entry_of attr = \<lparr>ae_value = at_value attr, ae_type = type_name (at_value attr)\<rparr>"

text \<open>\<^verbatim>\<open>if device.states: for state in device.states: states[state.name] = {...}\<close>\<close>

definition extract_states :: "state_obj list option \<Rightarrow> (string \<rightharpoonup> state_entry)" where
  "extract_states sts =
     (case sts of
        None \<Rightarrow> Map.empty
      | Some l \<Rightarrow> foldl (\<lambda>m state. m(st_name state \<mapsto> state_entry_of state)) Map.empty l)"

definition extract_attrs :: "attr_obj list option \<Rightarrow> (string \<rightharpoonup> attr_entry)" where
  "extract_attrs ats =
     (case ats of
        None \<Rightarrow> Map.empty
      | Some l \<Rightarrow> foldl (\<lambda>m attr. m(at_name attr \<mapsto> attr_entry_of attr)) Map.empty l)"

text \<open>\<^verbatim>\<open>getattr(x, name, default)\<close>\<close>

definition getattr_default :: "pyval option \<Rightarrow> pyval \<Rightarrow> pyval" where
  "getattr_default a d = (case a of None \<Rightarrow> d | Some v \<Rightarrow> v)"

definition param_info_of :: "param_obj \<Rightarrow> param_info" where
  "param_info_of param =
     \<lparr>pi_name = getattr_default (par_name param) (PStr ''N/A''),
      pi_type = getattr_default (par_type param) (PStr ''N/A'')\<rparr>"

definition cmd_info_of :: "command_obj \<Rightarrow> cmd_info" where
  "cmd_info_of cmd =
     \<lparr>ci_name = getattr_default (cmd_command_name cmd) (PStr (cmd_str cmd)),
      ci_parameters =
        (case cmd_parameters cmd of None \<Rightarrow> [] | Some params \<Rightarrow> map param_info_of params)\<rparr>"

definition state_def_info_of :: "state_def_obj \<Rightarrow> state_def_info" where
  "state_def_info_of state_def =
     \<lparr>sdi_name = getattr_default (sd_qualified_name state_def) (PStr (sd_str state_def)),
      sdi_type = getattr_default (sd_type state_def) (PStr ''N/A'')\<rparr>"

definition extract_commands :: "definition_obj option \<Rightarrow> cmd_info list" where
  "extract_commands d =
     (case d of
        None \<Rightarrow> []
      | Some dn \<Rightarrow> (case def_commands dn of None \<Rightarrow> [] | Some cmds \<Rightarrow> map cmd_info_of cmds))"

definition extract_state_definitions :: "definition_obj option \<Rightarrow> state_def_info list" where
  "extract_state_definitions d =
     (case d of
        None \<Rightarrow> []
      | Some dn \<Rightarrow> (case def_states dn of None \<Rightarrow> [] | Some sds \<Rightarrow> map state_def_info_of sds))"

definition or_empty :: "string option \<Rightarrow> string" where
  "or_empty x = (case x of None \<Rightarrow> [] | Some v \<Rightarrow> v)"

definition process_device ::
    "runtime \<Rightarrow> device \<Rightarrow> coordinator \<Rightarrow> (exn + device_data) \<times> coordinator" where
  "process_device rt dev s =
     (case extract_all_attributes rt (dev_reflected dev) of
        Inl e \<Rightarrow> (Inl e, s)
      | Inr raw_data' \<Rightarrow>
          (case now rt s of
             (t, s') \<Rightarrow>
               (Inr \<lparr>device_url = dev_device_url dev,
                     label = dev_label dev,
                     widget = dev_widget dev,
                     ui_class = dev_ui_class dev,
                     controllable_name = or_empty (dev_controllable_name dev),
                     protocol = or_empty (dev_protocol dev),
                     device_type = or_empty (dev_type dev),
                     available = dev_available dev,
                     states = extract_states (dev_states dev),
                     attributes = extract_attrs (dev_attributes dev),
                     commands = extract_commands (dev_definition dev),
                     state_definitions = extract_state_definitions (dev_definition dev),
                     raw_data = raw_data',
                     last_updated = t\<rparr>, s')))"

definition append_gateway :: "dict \<Rightarrow> coordinator \<Rightarrow> coordinator" where
  "append_gateway gateway_data s =
     s\<lparr>data := (data s)\<lparr>gateways := gateways (data s) @ [gateway_data]\<rparr>\<rparr>"

definition set_device :: "string \<Rightarrow> device_data \<Rightarrow> coordinator \<Rightarrow> coordinator" where
  "set_device url dd s = s\<lparr>data := (data s)\<lparr>devices := (devices (data s))(url \<mapsto> dd)\<rparr>\<rparr>"

fun process_gateways :: "runtime \<Rightarrow> pyobj list \<Rightarrow> coordinator \<Rightarrow> (exn + unit) \<times> coordinator" where
  "process_gateways rt [] s = (Inr (), s)"
| "process_gateways rt (gateway # rest) s =
     (case extract_all_attributes rt gateway of
        Inl e \<Rightarrow> (Inl e, s)
      | Inr gateway_data \<Rightarrow>
          process_gateways rt rest
            (log_line (ProcessedGateway gateway_data) (append_gateway gateway_data s)))"

fun process_devices :: "runtime \<Rightarrow> device list \<Rightarrow> coordinator \<Rightarrow> (exn + unit) \<times> coordinator" where
  "process_devices rt [] s = (Inr (), s)"
| "process_devices rt (dev # rest) s =
     (case process_device rt dev s of
        (Inl e, s') \<Rightarrow> (Inl e, s')
      | (Inr device_data, s') \<Rightarrow>
          process_devices rt rest (set_device (dev_device_url dev) device_data s'))"

definition set_last_full_refresh :: "datetime \<Rightarrow> coordinator \<Rightarrow> coordinator" where
  "set_last_full_refresh t s = s\<lparr>data := (data s)\<lparr>last_full_refresh := Some t\<rparr>\<rparr>"

definition process_setup :: "runtime \<Rightarrow> setup_obj \<Rightarrow> coordinator \<Rightarrow> (exn + unit) \<times> coordinator" where
  "process_setup rt su s =
     (case process_gateways rt (su_gateways su) s of
        (Inl e, s1) \<Rightarrow> (Inl e, s1)
      | (Inr u, s1) \<Rightarrow>
          (case process_devices rt (su_devices su) s1 of
             (Inl e, s2) \<Rightarrow> (Inl e, s2)
           | (Inr u, s2) \<Rightarrow>
               (case now rt s2 of (t, s3) \<Rightarrow> (Inr (), set_last_full_refresh t s3))))"

text \<open>
  \<^verbatim>\<open>__init__\<close>: an empty snapshot, the counter at zero, then the initial Setup; the
  clock not yet read and nothing logged.
\<close>

definition fresh :: coordinator where
  "fresh =
     \<lparr>data = \<lparr>devices = Map.empty, gateways = [], events_log = [], raw_api_responses = [],
               last_full_refresh = None\<rparr>,
      event_count = 0, now_calls = 0, logged = []\<rparr>"

definition init :: "runtime \<Rightarrow> setup_obj \<Rightarrow> (exn + unit) \<times> coordinator" where
  "init rt su = process_setup rt su fresh"

subsection \<open>The event processor\<close>

text \<open>One turn of the inner loop of \<^verbatim>\<open>_handle_state_change\<close>.\<close>

definition write_state ::
    "runtime \<Rightarrow> string \<Rightarrow> state_obj \<Rightarrow> coordinator \<Rightarrow> (exn + unit) \<times> coordinator" where
  "write_state rt url state s =
     (case devices (data s) url of
        None \<Rightarrow> (Inl (KeyError url), s)
      | Some dd \<Rightarrow>
          (let old_value = (case states dd (st_name state) of
                              None \<Rightarrow> PNone | Some en \<Rightarrow> se_value en);
               new_value = st_value state;
               dd1 = dd\<lparr>states := (states dd)(st_name state \<mapsto>
                        \<lparr>se_value = new_value, se_type = type_name new_value,
                         se_raw = st_str state\<rparr>)\<rparr>
           in case now rt s of
                (t, s1) \<Rightarrow>
                  (let s2 = set_device url (dd1\<lparr>last_updated := t\<rparr>) s1
                   in if py_ne rt old_value new_value
                      then (Inr (), log_line (StateChange (label dd1) (st_name state)
                                                old_value new_value) s2)
                      else (Inr (), s2))))"

fun write_states ::
    "runtime \<Rightarrow> string \<Rightarrow> state_obj list \<Rightarrow> coordinator \<Rightarrow> (exn + unit) \<times> coordinator" where
  "write_states rt url [] s = (Inr (), s)"
| "write_states rt url (state # rest) s =
     (case write_state rt url state s of
        (Inl e, s') \<Rightarrow> (Inl e, s')
      | (Inr u, s') \<Rightarrow> write_states rt url rest s')"

text \<open>One turn of the outer loop: \<^verbatim>\<open>if device_url in self._data.devices: for state in ...\<close>\<close>

definition handle_device_state ::
    "runtime \<Rightarrow> device_state \<Rightarrow> coordinator \<Rightarrow> (exn + unit) \<times> coordinator" where
  "handle_device_state rt ds s =
     (if ds_device_url ds \<in> dom (devices (data s))
      then (case ds_states ds of
              None \<Rightarrow> (Inl not_iterable, s)
            | Some sts \<Rightarrow> write_states rt (ds_device_url ds) sts s)
      else (Inr (), s))"

fun handle_device_states ::
    "runtime \<Rightarrow> device_state list \<Rightarrow> coordinator \<Rightarrow> (exn + unit) \<times> coordinator" where
  "handle_device_states rt [] s = (Inr (), s)"
| "handle_device_states rt (ds # rest) s =
     (case handle_device_state rt ds s of
        (Inl e, s') \<Rightarrow> (Inl e, s')
      | (Inr u, s') \<Rightarrow> handle_device_states rt rest s')"

definition handle_state_change ::
    "runtime \<Rightarrow> event \<Rightarrow> coordinator \<Rightarrow> (exn + unit) \<times> coordinator" where
  "handle_state_change rt ev s =
     (case ev_device_states ev of
        None \<Rightarrow> (Inr (), s)
      | Some dss \<Rightarrow> handle_device_states rt dss s)"

definition handle_availability_change :: "event \<Rightarrow> bool \<Rightarrow> coordinator \<Rightarrow> coordinator" where
  "handle_availability_change ev avail s =
     (case ev_device_url ev of
        None \<Rightarrow> s
      | Some url \<Rightarrow>
          (if url = [] then s
           else case devices (data s) url of
                  None \<Rightarrow> s
                | Some dd \<Rightarrow>
                    log_line (AvailabilityChange (label dd) avail)
                      (set_device url (dd\<lparr>available := avail\<rparr>) s)))"

text \<open>\<^verbatim>\<open>self._data.events_log = self._data.events_log[-1000:]\<close> when longer than 1000.\<close>

definition keep_last_1000 :: "event_entry list \<Rightarrow> event_entry list" where
  "keep_last_1000 l = (if length l > 1000 then drop (length l - 1000) l else l)"

definition set_events_log :: "event_entry list \<Rightarrow> coordinator \<Rightarrow> coordinator" where
  "set_events_log l s = s\<lparr>data := (data s)\<lparr>events_log := l\<rparr>\<rparr>"

definition dispatch :: "runtime \<Rightarrow> event \<Rightarrow> coordinator \<Rightarrow> (exn + unit) \<times> coordinator" where
  "dispatch rt ev s =
     (if ev_name ev = DEVICE_STATE_CHANGED then handle_state_change rt ev s
      else if ev_name ev = DEVICE_AVAILABLE then (Inr (), handle_availability_change ev True s)
      else if ev_name ev = DEVICE_UNAVAILABLE then (Inr (), handle_availability_change ev False s)
      else if ev_name ev = DEVICE_CREATED
        then (Inr (), log_line (NewDeviceCreated (ev_device_url ev)) s)
      else if ev_name ev = DEVICE_UPDATED
        then (Inr (), log_line (DeviceUpdated (ev_device_url ev)) s)
      else (Inr (), s))"

definition process_event :: "runtime \<Rightarrow> event \<Rightarrow> coordinator \<Rightarrow> (exn + unit) \<times> coordinator" where
  "process_event rt ev s =
     (let s1 = s\<lparr>event_count := event_count s + 1\<rparr>
      in case now rt s1 of
           (t, s2) \<Rightarrow>
             (case extract_all_attributes rt (ev_reflected ev) of
                Inl e \<Rightarrow> (Inl e, s2)
              | Inr r \<Rightarrow>
                  (let event_data = \<lparr>timestamp = t, event_number = event_count s2,
                                     name = ev_name ev, raw = r\<rparr>;
                       s3 = set_events_log
                              (keep_last_1000 (events_log (data s2) @ [event_data])) s2;
                       s4 = log_line (EventDetails event_data)
                              (log_line (EventInfo (event_count s3) (ev_name ev)) s3)
                   in dispatch rt ev s4)))"

subsection \<open>The polling coordinator\<close>

text \<open>\<^verbatim>\<open>for event in events: self._process_event(event)\<close>: an exception ends the loop.\<close>

fun process_events :: "runtime \<Rightarrow> event list \<Rightarrow> coordinator \<Rightarrow> (exn + unit) \<times> coordinator" where
  "process_events rt [] s = (Inr (), s)"
| "process_events rt (ev # rest) s =
     (case process_event rt ev s of
        (Inl e, s') \<Rightarrow> (Inl e, s')
      | (Inr u, s') \<Rightarrow> process_events rt rest s')"

text \<open>
  \<^verbatim>\<open>timedelta.seconds\<close> of a difference given in microseconds: Python normalises a
  timedelta to days, seconds in \<open>[0, 86400)\<close> and microseconds in \<open>[0, 1000000)\<close>, the
  days carrying the sign.
\<close>

definition td_seconds :: "int \<Rightarrow> int" where
  "td_seconds delta = (delta div 1000000) mod 86400"

text \<open>
  \<^verbatim>\<open>self._data.last_full_refresh is None or (datetime.now() - self._data.last_full_refresh).seconds > 300\<close>:
  the clock is read only when a full refresh has happened before.
\<close>

definition full_refresh_due :: "runtime \<Rightarrow> coordinator \<Rightarrow> bool \<times> coordinator" where
  "full_refresh_due rt s =
     (case last_full_refresh (data s) of
        None \<Rightarrow> (True, s)
      | Some prev \<Rightarrow> (case now rt s of (t, s') \<Rightarrow> (td_seconds (t - prev) > 300, s')))"

text \<open>
  The body of the \<^verbatim>\<open>try\<close> of \<^verbatim>\<open>_async_update_data\<close>. \<open>fetched\<close> is what
  \<^verbatim>\<open>client.fetch_events()\<close> does in this cycle and \<open>got_setup\<close> what
  \<^verbatim>\<open>client.get_setup()\<close> does if it is called.
\<close>

definition update_body ::
    "runtime \<Rightarrow> exn + event list \<Rightarrow> exn + setup_obj \<Rightarrow> coordinator
      \<Rightarrow> (exn + explorer_data) \<times> coordinator" where
  "update_body rt fetched got_setup s =
     (case fetched of
        Inl e \<Rightarrow> (Inl e, s)
      | Inr events \<Rightarrow>
          (case process_events rt events s of
             (Inl e, s1) \<Rightarrow> (Inl e, s1)
           | (Inr u, s1) \<Rightarrow>
               (case full_refresh_due rt s1 of
                  (False, s2) \<Rightarrow> (Inr (data s2), s2)
                | (True, s2) \<Rightarrow>
                    (let s3 = log_line FullSetupRefresh s2
                     in case got_setup of
                          Inl e \<Rightarrow> (Inl e, s3)
                        | Inr new_setup \<Rightarrow>
                            (case process_setup rt new_setup s3 of
                               (Inl e, s4) \<Rightarrow> (Inl e, s4)
                             | (Inr u, s4) \<Rightarrow> (Inr (data s4), s4))))))"

text \<open>
  \<^verbatim>\<open>except Exception as exc: LOGGER.exception(...); raise UpdateFailed(f"Error communicating with API: {exc}") from exc\<close>
\<close>

definition async_update_data ::
    "runtime \<Rightarrow> exn + event list \<Rightarrow> exn + setup_obj \<Rightarrow> coordinator
      \<Rightarrow> (exn + explorer_data) \<times> coordinator" where
  "async_update_data rt fetched got_setup s =
     (case update_body rt fetched got_setup s of
        (Inl exc, s') \<Rightarrow>
          (Inl (UpdateFailed (''Error communicating with API: '' @ exn_str exc) exc),
           log_line (ErrorFetching exc) s')
      | (Inr d, s') \<Rightarrow> (Inr d, s'))"

section \<open>Notions used in the statements\<close>

text \<open>What the sweep stores for one attribute: nothing (\<open>None\<close>) or a value.\<close>

definition field_result :: "runtime \<Rightarrow> exn + pyval \<Rightarrow> pyval option" where
  "field_result rt got =
     (case try_body rt got of Inl e \<Rightarrow> Some (error_marker e) | Inr r \<Rightarrow> r)"

text \<open>The mapping the sweep returns for an object.\<close>

definition reflected :: "runtime \<Rightarrow> pyobj \<Rightarrow> dict" where
  "reflected rt obj = (case extract_all_attributes rt obj of Inl e \<Rightarrow> [] | Inr m \<Rightarrow> m)"

text \<open>The record \<^verbatim>\<open>_process_device\<close> builds for a device at clock reading \<open>t\<close>.\<close>

definition device_data_of :: "runtime \<Rightarrow> device \<Rightarrow> datetime \<Rightarrow> device_data" where
  "device_data_of rt dev t =
     \<lparr>device_url = dev_device_url dev,
      label = dev_label dev,
      widget = dev_widget dev,
      ui_class = dev_ui_class dev,
      controllable_name = or_empty (dev_controllable_name dev),
      protocol = or_empty (dev_protocol dev),
      device_type = or_empty (dev_type dev),
      available = dev_available dev,
      states = extract_states (dev_states dev),
      attributes = extract_attrs (dev_attributes dev),
      commands = extract_commands (dev_definition dev),
      state_definitions = extract_state_definitions (dev_definition dev),
      raw_data = reflected rt (dev_reflected dev),
      last_updated = t\<rparr>"

text \<open>The last device of a list that has a given URL.\<close>

definition latest_device :: "string \<Rightarrow> device list \<Rightarrow> device option" where
  "latest_device url devs = List.find (\<lambda>dev. dev_device_url dev = url) (rev devs)"

text \<open>Two device records that agree in every field but \<open>last_updated\<close>.\<close>

definition same_but_last_updated :: "device_data \<Rightarrow> device_data \<Rightarrow> bool" where
  "same_but_last_updated a b = (a\<lparr>last_updated := last_updated b\<rparr> = b)"

text \<open>The log entry \<^verbatim>\<open>_process_event\<close> builds for an event in a state.\<close>

definition entry_for :: "runtime \<Rightarrow> event \<Rightarrow> coordinator \<Rightarrow> event_entry" where
  "entry_for rt ev s =
     \<lparr>timestamp = clock rt (now_calls s), event_number = Suc (event_count s),
      name = ev_name ev, raw = reflected rt (ev_reflected ev)\<rparr>"

text \<open>
  \<^verbatim>\<open>_process_event\<close> called once for each event of a sequence, in order, whatever each
  call's outcome; and the entries those calls build.
\<close>

fun process_each :: "runtime \<Rightarrow> event list \<Rightarrow> coordinator \<Rightarrow> coordinator" where
  "process_each rt [] s = s"
| "process_each rt (ev # rest) s = process_each rt rest (snd (process_event rt ev s))"

fun appended :: "runtime \<Rightarrow> event list \<Rightarrow> coordinator \<Rightarrow> event_entry list" where
  "appended rt [] s = []"
| "appended rt (ev # rest) s = entry_for rt ev s # appended rt rest (snd (process_event rt ev s))"

text \<open>
  The event numbers of the log increase strictly and none exceeds the counter.
\<close>

definition log_ordered :: "coordinator \<Rightarrow> bool" where
  "log_ordered s =
     (sorted_wrt (<) (map event_number (events_log (data s)))
      \<and> list_all (\<lambda>en. event_number en \<le> event_count s) (events_log (data s)))"

text \<open>
  The states a state-changed payload writes to one device, in order, and the last of them
  with a given name.
\<close>

definition writes_for :: "string \<Rightarrow> device_state list \<Rightarrow> state_obj list" where
  "writes_for url dss =
     concat (map (\<lambda>ds. if ds_device_url ds = url
                        then (case ds_states ds of None \<Rightarrow> [] | Some sts \<Rightarrow> sts) else []) dss)"

definition last_write :: "string \<Rightarrow> state_obj list \<Rightarrow> state_obj option" where
  "last_write n sts = List.find (\<lambda>st. st_name st = n) (rev sts)"

text \<open>A payload in which every element has a state list.\<close>

definition has_state_lists :: "device_state list \<Rightarrow> bool" where
  "has_state_lists dss = list_all (\<lambda>ds. ds_states ds \<noteq> None) dss"

text \<open>
  What event processing leaves alone: the log of events apart, every part of the snapshot
  but the device records, whose keys stay; the clock only advances and the logger only grows.
\<close>

definition frame :: "coordinator \<Rightarrow> coordinator \<Rightarrow> bool" where
  "frame s s' =
     (events_log (data s') = events_log (data s)
      \<and> gateways (data s') = gateways (data s)
      \<and> raw_api_responses (data s') = raw_api_responses (data s)
      \<and> last_full_refresh (data s') = last_full_refresh (data s)
      \<and> event_count s' = event_count s
      \<and> dom (devices (data s')) = dom (devices (data s))
      \<and> now_calls s \<le> now_calls s'
      \<and> prefix (logged s) (logged s'))"

text \<open>
  The device mapping the device loop of \<^verbatim>\<open>_process_setup\<close> leaves, when the loop
  starts at the k-th clock reading.
\<close>

fun devices_after ::
    "runtime \<Rightarrow> device list \<Rightarrow> nat \<Rightarrow> (string \<rightharpoonup> device_data) \<Rightarrow> (string \<rightharpoonup> device_data)" where
  "devices_after rt [] k m = m"
| "devices_after rt (dev # rest) k m =
     devices_after rt rest (Suc k)
       (m(dev_device_url dev \<mapsto> device_data_of rt dev (clock rt k)))"

text \<open>The state in which \<^verbatim>\<open>_process_event\<close> dispatches on the event's name.\<close>

definition logged_event :: "runtime \<Rightarrow> event \<Rightarrow> coordinator \<Rightarrow> coordinator" where
  "logged_event rt ev s =
     s\<lparr>event_count := Suc (event_count s),
       now_calls := Suc (now_calls s),
       data := (data s)\<lparr>events_log :=
                  keep_last_1000 (events_log (data s) @ [entry_for rt ev s])\<rparr>,
       logged := logged s @ [EventInfo (Suc (event_count s)) (ev_name ev),
                             EventDetails (entry_for rt ev s)]\<rparr>"

text \<open>A states mapping after a list of states has been written to it.\<close>

definition written :: "(string \<rightharpoonup> state_entry) \<Rightarrow> state_obj list \<Rightarrow> (string \<rightharpoonup> state_entry)" where
  "written m sts = foldl (\<lambda>m state. m(st_name state \<mapsto> state_entry_of state)) m sts"

text \<open>
  A device record \<open>dd'\<close> that comes from \<open>dd\<close> by writing the states \<open>sts\<close> between the
  clock readings number \<open>n0\<close> and \<open>n1\<close>: the states are written, the time is that of a
  reading in between when there was a state to write, and nothing else differs.
\<close>

definition device_written ::
    "runtime \<Rightarrow> nat \<Rightarrow> nat \<Rightarrow> device_data \<Rightarrow> device_data \<Rightarrow> state_obj list \<Rightarrow> bool" where
  "device_written rt n0 n1 dd dd' sts =
     (states dd' = written (states dd) sts
      \<and> dd'\<lparr>states := states dd, last_updated := last_updated dd\<rparr> = dd
      \<and> (if sts = [] then last_updated dd' = last_updated dd
         else \<exists>k. n0 \<le> k \<and> k < n1 \<and> last_updated dd' = clock rt k))"

text \<open>Log records that are all state-change lines of a value that differs from the old one.\<close>

fun is_change :: "runtime \<Rightarrow> log_record \<Rightarrow> bool" where
  "is_change rt (StateChange lb n old_value new_value) = py_ne rt old_value new_value"
| "is_change rt r = False"

definition only_changes :: "runtime \<Rightarrow> log_record list \<Rightarrow> bool" where
  "only_changes rt l = list_all (is_change rt) l"

section \<open>Concrete inputs\<close>

text \<open>
  A runtime whose clock always reads \<open>t\<close>, and one whose k-th reading is \<open>100 + k\<close>;
  \<^verbatim>\<open>str()\<close> raises on the object with identity 0 and \<^verbatim>\<open>!=\<close> is inequality of the
  model's values.
\<close>

definition ex_str :: "pyval \<Rightarrow> exn + string" where
  "ex_str v = (if v = PObj ''Place'' 0 then Inl (Raised ''boom'') else Inr ''<object>'')"

definition ex_clock :: "datetime \<Rightarrow> runtime" where
  "ex_clock t = \<lparr>py_str = ex_str, py_ne = (\<lambda>a b. a \<noteq> b), clock = (\<lambda>k. t)\<rparr>"

definition ex_rt :: runtime where
  "ex_rt = \<lparr>py_str = ex_str, py_ne = (\<lambda>a b. a \<noteq> b), clock = (\<lambda>k. 100 + int k)\<rparr>"

text \<open>A gateway with one readable field, one that raises, a method and a private field.\<close>

definition ex_gateway :: pyobj where
  "ex_gateway =
     [(''_secret'', Inr (PStr ''x'')),
      (''gateway_id'', Inr (PStr ''1234-5678-9012'')),
      (''place'', Inr (PObj ''Place'' 0)),
      (''refresh'', Inr (PCallable ''method'')),
      (''sub_type'', Inl (Raised ''no sub type''))]"

text \<open>The device of the scenario: \<open>dev-1\<close>, the boiler, with one temperature state.\<close>

definition ex_state :: "int \<Rightarrow> state_obj" where
  "ex_state v =
     \<lparr>st_name = ''core:TemperatureState'', st_value = PInt v, st_str = ''State''\<rparr>"

definition ex_device :: device where
  "ex_device =
     \<lparr>dev_device_url = ''dev-1'', dev_label = ''Boiler'', dev_widget = ''Widget'',
      dev_ui_class = ''HeatingSystem'', dev_controllable_name = None, dev_protocol = None,
      dev_type = None, dev_available = True, dev_states = Some [ex_state 45],
      dev_attributes = None, dev_definition = None,
      dev_reflected = [(''label'', Inr (PStr ''Boiler''))]\<rparr>"

definition ex_setup :: setup_obj where
  "ex_setup = \<lparr>su_gateways = [ex_gateway], su_devices = [ex_device]\<rparr>"

text \<open>
  What a later state keeps of an earlier one: every device key, the gateway records as a
  prefix, and a counter that is no smaller.
\<close>

definition retained :: "coordinator \<Rightarrow> coordinator \<Rightarrow> bool" where
  "retained s s' =
     (dom (devices (data s)) \<subseteq> dom (devices (data s'))
      \<and> prefix (gateways (data s)) (gateways (data s'))
      \<and> event_count s \<le> event_count s')"

text \<open>A state-changed event that sets the temperature state of \<open>dev-1\<close>.\<close>

definition ex_event :: "int \<Rightarrow> event" where
  "ex_event v =
     \<lparr>ev_name = DEVICE_STATE_CHANGED, ev_device_url = Some ''dev-1'',
      ev_device_states = Some [\<lparr>ds_device_url = ''dev-1'', ds_states = Some [ex_state v]\<rparr>],
      ev_reflected = [(''name'', Inr (PStr ''DeviceStateChangedEvent''))]\<rparr>"

text \<open>
  A state-changed event whose element for \<open>dev-1\<close> has no state list, one for a device
  the snapshot does not have, one with an empty state list, and an availability event.
\<close>

definition ex_broken_event :: event where
  "ex_broken_event =
     \<lparr>ev_name = DEVICE_STATE_CHANGED, ev_device_url = Some ''dev-1'',
      ev_device_states = Some [\<lparr>ds_device_url = ''dev-1'', ds_states = None\<rparr>],
      ev_reflected = []\<rparr>"

definition ex_unknown_event :: event where
  "ex_unknown_event =
     \<lparr>ev_name = DEVICE_STATE_CHANGED, ev_device_url = Some ''dev-2'',
      ev_device_states = Some [\<lparr>ds_device_url = ''dev-2'', ds_states = Some [ex_state 46]\<rparr>],
      ev_reflected = []\<rparr>"

definition ex_empty_event :: event where
  "ex_empty_event =
     \<lparr>ev_name = DEVICE_STATE_CHANGED, ev_device_url = Some ''dev-1'',
      ev_device_states = Some [\<lparr>ds_device_url = ''dev-1'', ds_states = Some []\<rparr>],
      ev_reflected = []\<rparr>"

definition ex_unavailable :: "string \<Rightarrow> event" where
  "ex_unavailable url =
     \<lparr>ev_name = DEVICE_UNAVAILABLE, ev_device_url = Some url, ev_device_states = None,
      ev_reflected = []\<rparr>"

section \<open>The reflection sweep never raises\<close>

lemma try_except_field_result: "try_except rt got = Inr (field_result rt got)"
  by (simp add: try_except_def field_result_def split: sum.splits)

lemma extract_loop_total: "\<exists>m. extract_loop rt obj result = Inr m"
proof (induction obj arbitrary: result)
  case Nil
  show ?case by simp
next
  case (Cons a obj)
  obtain n got where a: "a = (n, got)" by (cases a)
  show ?case using Cons.IH a
    by (cases "field_result rt got") (simp_all add: try_except_field_result)
qed

lemma extract_all_attributes_total: "\<exists>m. extract_all_attributes rt obj = Inr m"
  by (simp add: extract_all_attributes_def extract_loop_total)

lemma extract_all_attributes_reflected:
  "extract_all_attributes rt obj = Inr (reflected rt obj)"
  using extract_all_attributes_total[of rt obj] by (auto simp: reflected_def)

lemma extract_loop_other:
  "extract_loop rt obj result = Inr m \<Longrightarrow> n \<notin> fst ` set obj \<Longrightarrow> map_of m n = map_of result n"
proof (induction obj arbitrary: result)
  case Nil
  then show ?case by simp
next
  case (Cons a obj)
  obtain k got where a: "a = (k, got)" by (cases a)
  have kn: "k \<noteq> n" and nin: "n \<notin> fst ` set obj" using Cons.prems(2) a by auto
  show ?case
  proof (cases "startswith_underscore k")
    case True
    then show ?thesis using Cons.IH[of result] Cons.prems(1) a nin by simp
  next
    case False
    show ?thesis
    proof (cases "field_result rt got")
      case None
      then show ?thesis using Cons.IH[of result] Cons.prems(1) a nin False
        by (simp add: try_except_field_result)
    next
      case (Some j)
      then have "extract_loop rt obj (AList.update k j result) = Inr m"
        using Cons.prems(1) a False by (simp add: try_except_field_result)
      then have "map_of m n = map_of (AList.update k j result) n"
        using Cons.IH nin by blast
      then show ?thesis using kn by (simp add: update_conv')
    qed
  qed
qed

lemma extract_loop_field:
  "extract_loop rt obj result = Inr m \<Longrightarrow> distinct (map fst obj) \<Longrightarrow> (n, got) \<in> set obj \<Longrightarrow>
   map_of m n = (if startswith_underscore n then map_of result n
                 else case field_result rt got of None \<Rightarrow> map_of result n | Some j \<Rightarrow> Some j)"
proof (induction obj arbitrary: result)
  case Nil
  then show ?case by simp
next
  case (Cons a obj)
  obtain k g where a: "a = (k, g)" by (cases a)
  have dist: "distinct (map fst obj)" and knotin: "k \<notin> fst ` set obj"
    using Cons.prems(2) a by auto
  have step: "\<exists>result'. extract_loop rt obj result' = Inr m
      \<and> (\<forall>x. x \<noteq> k \<longrightarrow> map_of result' x = map_of result x)
      \<and> map_of result' k = (if startswith_underscore k then map_of result k
                 else case field_result rt g of None \<Rightarrow> map_of result k | Some j \<Rightarrow> Some j)"
  proof (cases "startswith_underscore k \<or> field_result rt g = None")
    case True
    then have "extract_loop rt obj result = Inr m"
      using Cons.prems(1) a by (auto simp: try_except_field_result split: if_splits)
    then show ?thesis using True by auto
  next
    case False
    then obtain j where j: "field_result rt g = Some j" and nu: "\<not> startswith_underscore k"
      by auto
    then have "extract_loop rt obj (AList.update k j result) = Inr m"
      using Cons.prems(1) a by (simp add: try_except_field_result)
    then show ?thesis using j nu by (auto simp: update_conv')
  qed
  then obtain result' where r: "extract_loop rt obj result' = Inr m"
    and other: "\<And>x. x \<noteq> k \<Longrightarrow> map_of result' x = map_of result x"
    and here: "map_of result' k = (if startswith_underscore k then map_of result k
                 else case field_result rt g of None \<Rightarrow> map_of result k | Some j \<Rightarrow> Some j)"
    by blast
  show ?case
  proof (cases "(n, got) = (k, g)")
    case True
    then have nk: "n = k" and gg: "got = g" by simp_all
    have "map_of m k = map_of result' k" using extract_loop_other[OF r] knotin by blast
    then show ?thesis unfolding nk gg using here by simp
  next
    case False
    then have inrest: "(n, got) \<in> set obj" using Cons.prems(3) a by auto
    then have nk: "n \<noteq> k" using knotin by force
    show ?thesis using Cons.IH[OF r dist inrest] other[OF nk]
      by (simp split: option.splits)
  qed
qed

lemma td_seconds_char: "td_seconds d > 300 \<longleftrightarrow> 301000000 \<le> d mod 86400000000"
proof -
  have e: "d mod 86400000000 = 1000000 * ((d div 1000000) mod 86400) + d mod 1000000"
    using zmod_zmult2_eq[of 86400 d 1000000] by simp
  have "0 \<le> d mod 1000000" "d mod 1000000 < 1000000" by simp_all
  then show ?thesis unfolding td_seconds_def e by linarith
qed

section \<open>The Setup normalizer, step by step\<close>

lemma find_append:
  "List.find P (xs @ ys) = (case List.find P xs of None \<Rightarrow> List.find P ys | Some x \<Rightarrow> Some x)"
  by (induction xs) auto

lemma process_device_eq:
  "process_device rt dev s =
     (Inr (device_data_of rt dev (clock rt (now_calls s))), s\<lparr>now_calls := Suc (now_calls s)\<rparr>)"
  by (simp add: process_device_def extract_all_attributes_reflected now_def device_data_of_def)

lemma process_gateways_eq:
  "process_gateways rt gs s =
     (Inr (), s\<lparr>data := (data s)\<lparr>gateways := gateways (data s) @ map (reflected rt) gs\<rparr>,
               logged := logged s @ map (\<lambda>g. ProcessedGateway (reflected rt g)) gs\<rparr>)"
proof (induction gs arbitrary: s)
  case Nil
  show ?case by simp
next
  case (Cons g gs)
  show ?case
    by (simp add: extract_all_attributes_reflected Cons.IH log_line_def append_gateway_def)
qed

lemma process_devices_eq:
  "process_devices rt devs s =
     (Inr (), s\<lparr>data := (data s)\<lparr>devices := devices_after rt devs (now_calls s) (devices (data s))\<rparr>,
               now_calls := now_calls s + length devs\<rparr>)"
proof (induction devs arbitrary: s)
  case Nil
  show ?case by simp
next
  case (Cons dev devs)
  show ?case
    by (simp add: process_device_eq Cons.IH set_device_def del: fun_upd_apply)
qed

lemma process_setup_eq:
  "process_setup rt su s =
     (Inr (), s\<lparr>data := (data s)\<lparr>
                  devices := devices_after rt (su_devices su) (now_calls s) (devices (data s)),
                  gateways := gateways (data s) @ map (reflected rt) (su_gateways su),
                  last_full_refresh := Some (clock rt (now_calls s + length (su_devices su)))\<rparr>,
               now_calls := Suc (now_calls s + length (su_devices su)),
               logged := logged s @ map (\<lambda>g. ProcessedGateway (reflected rt g)) (su_gateways su)\<rparr>)"
  by (simp add: process_setup_def process_gateways_eq process_devices_eq now_def
      set_last_full_refresh_def)

lemma devices_after_other:
  "latest_device url devs = None \<Longrightarrow> devices_after rt devs k m url = m url"
proof (induction devs arbitrary: k m)
  case Nil
  show ?case by simp
next
  case (Cons dev devs)
  from Cons.prems have a: "latest_device url devs = None" and b: "dev_device_url dev \<noteq> url"
    by (auto simp: latest_device_def find_append split: option.splits if_splits)
  show ?case using Cons.IH[OF a] b by simp
qed

lemma devices_after_latest:
  "latest_device url devs = Some dev \<Longrightarrow>
   \<exists>i<length devs. devices_after rt devs k m url = Some (device_data_of rt dev (clock rt (k + i)))"
proof (induction devs arbitrary: k m)
  case Nil
  then show ?case by (simp add: latest_device_def)
next
  case (Cons d devs)
  show ?case
  proof (cases "latest_device url devs")
    case None
    with Cons.prems have d: "d = dev" "dev_device_url d = url"
      by (auto simp: latest_device_def find_append split: option.splits if_splits)
    have "devices_after rt (d # devs) k m url = Some (device_data_of rt dev (clock rt (k + 0)))"
      using devices_after_other[OF None] d by simp
    then show ?thesis by blast
  next
    case (Some x)
    with Cons.prems have x: "x = dev"
      by (auto simp: latest_device_def find_append split: option.splits if_splits)
    from Cons.IH[OF Some[unfolded x], of "Suc k" "m(dev_device_url d \<mapsto> device_data_of rt d (clock rt k))"]
    obtain i where "i < length devs"
      "devices_after rt (d # devs) k m url = Some (device_data_of rt dev (clock rt (k + Suc i)))"
      by (auto simp del: fun_upd_apply)
    then show ?thesis by (intro exI[of _ "Suc i"]) simp
  qed
qed


section \<open>The state-change handler, step by step\<close>

lemma frame_refl: "frame s s"
  by (simp add: frame_def)

lemma frame_trans: "frame a b \<Longrightarrow> frame b c \<Longrightarrow> frame a c"
  by (auto simp: frame_def)

lemma written_lookup:
  "written m sts n = (case last_write n sts of None \<Rightarrow> m n | Some st \<Rightarrow> Some (state_entry_of st))"
proof (induction sts arbitrary: m)
  case Nil
  show ?case by (simp add: written_def last_write_def)
next
  case (Cons st sts)
  have "written m (st # sts) n = written (m(st_name st \<mapsto> state_entry_of st)) sts n"
    by (simp add: written_def)
  also have "\<dots> = (case last_write n sts of None \<Rightarrow> (m(st_name st \<mapsto> state_entry_of st)) n
                     | Some st' \<Rightarrow> Some (state_entry_of st'))"
    by (rule Cons.IH)
  also have "\<dots> = (case last_write n (st # sts) of None \<Rightarrow> m n | Some st' \<Rightarrow> Some (state_entry_of st'))"
    by (auto simp: last_write_def find_append split: option.splits)
  finally show ?case .
qed

lemma written_append: "written m (a @ b) = written (written m a) b"
  by (simp add: written_def)

lemma write_state_known:
  assumes "devices (data s) url = Some dd"
  shows "write_state rt url state s =
     (Inr (), s\<lparr>data := (data s)\<lparr>devices := (devices (data s))(url \<mapsto>
                 dd\<lparr>states := (states dd)(st_name state \<mapsto> state_entry_of state),
                    last_updated := clock rt (now_calls s)\<rparr>)\<rparr>,
               now_calls := Suc (now_calls s),
               logged := logged s @
                 (if py_ne rt (case states dd (st_name state) of None \<Rightarrow> PNone | Some en \<Rightarrow> se_value en)
                      (st_value state)
                  then [StateChange (label dd) (st_name state)
                          (case states dd (st_name state) of None \<Rightarrow> PNone | Some en \<Rightarrow> se_value en)
                          (st_value state)]
                  else [])\<rparr>)"
  using assms
  by (simp add: write_state_def now_def set_device_def log_line_def state_entry_of_def Let_def
      del: fun_upd_apply)


lemma device_written_step:
  assumes "device_written rt (Suc n0) n1 (dd\<lparr>states := (states dd)(st_name st \<mapsto> state_entry_of st),
                    last_updated := clock rt n0\<rparr>) dd' sts"
    and "Suc n0 \<le> n1"
  shows "device_written rt n0 n1 dd dd' (st # sts)"
proof -
  let ?dd1 = "dd\<lparr>states := (states dd)(st_name st \<mapsto> state_entry_of st), last_updated := clock rt n0\<rparr>"
  from assms(1) have a: "states dd' = written (states ?dd1) sts"
    and b: "dd'\<lparr>states := states ?dd1, last_updated := last_updated ?dd1\<rparr> = ?dd1"
    and c: "if sts = [] then last_updated dd' = last_updated ?dd1
            else \<exists>k. Suc n0 \<le> k \<and> k < n1 \<and> last_updated dd' = clock rt k"
    by (simp_all add: device_written_def)
  have 1: "states dd' = written (states dd) (st # sts)"
    using a by (simp add: written_def)
  have "(dd'\<lparr>states := states ?dd1, last_updated := last_updated ?dd1\<rparr>)\<lparr>states := states dd, last_updated := last_updated dd\<rparr>
        = ?dd1\<lparr>states := states dd, last_updated := last_updated dd\<rparr>"
    using b by simp
  then have 2: "dd'\<lparr>states := states dd, last_updated := last_updated dd\<rparr> = dd"
    by simp
  have 3: "\<exists>k. n0 \<le> k \<and> k < n1 \<and> last_updated dd' = clock rt k"
  proof (cases "sts = []")
    case True
    then have "last_updated dd' = clock rt n0" using c by simp
    then show ?thesis using assms(2) by auto
  next
    case False
    then obtain k where "Suc n0 \<le> k" "k < n1" "last_updated dd' = clock rt k" using c by auto
    then show ?thesis by (intro exI[of _ k]) simp
  qed
  show ?thesis using 1 2 3 by (simp add: device_written_def)
qed

lemma write_states_known:
  assumes "devices (data s) url = Some dd"
  shows "\<exists>s' dd' l. write_states rt url sts s = (Inr (), s') \<and> frame s s'
     \<and> now_calls s' = now_calls s + length sts
     \<and> (\<forall>k. k \<noteq> url \<longrightarrow> devices (data s') k = devices (data s) k)
     \<and> devices (data s') url = Some dd'
     \<and> device_written rt (now_calls s) (now_calls s') dd dd' sts
     \<and> logged s' = logged s @ l \<and> only_changes rt l"
  using assms
proof (induction sts arbitrary: s dd)
  case Nil
  show ?case using Nil
    by (simp add: frame_refl device_written_def written_def only_changes_def)
next
  case (Cons st sts)
  let ?dd1 = "dd\<lparr>states := (states dd)(st_name st \<mapsto> state_entry_of st), last_updated := clock rt (now_calls s)\<rparr>"
  let ?old = "case states dd (st_name st) of None \<Rightarrow> PNone | Some en \<Rightarrow> se_value en"
  let ?l1 = "if py_ne rt ?old (st_value st)
             then [StateChange (label dd) (st_name st) ?old (st_value st)] else []"
  define s1 where "s1 = s\<lparr>data := (data s)\<lparr>devices := (devices (data s))(url \<mapsto> ?dd1)\<rparr>,
               now_calls := Suc (now_calls s), logged := logged s @ ?l1\<rparr>"
  have w: "write_state rt url st s = (Inr (), s1)"
    unfolding s1_def by (rule write_state_known[OF Cons.prems])
  have d1: "devices (data s1) = (devices (data s))(url \<mapsto> ?dd1)" by (simp add: s1_def)
  have n1: "now_calls s1 = Suc (now_calls s)" by (simp add: s1_def)
  have l1: "logged s1 = logged s @ ?l1" "only_changes rt ?l1"
    by (simp_all add: s1_def only_changes_def)
  have "url \<in> dom (devices (data s))" using Cons.prems by blast
  then have f1: "frame s s1" by (auto simp: s1_def frame_def)
  have k1: "devices (data s1) url = Some ?dd1" using d1 by simp
  from Cons.IH[OF k1] obtain s' dd' l where
    r: "write_states rt url sts s1 = (Inr (), s')" and f: "frame s1 s'"
    and n: "now_calls s' = now_calls s1 + length sts"
    and o: "\<forall>k. k \<noteq> url \<longrightarrow> devices (data s') k = devices (data s1) k"
    and d: "devices (data s') url = Some dd'"
    and dw: "device_written rt (now_calls s1) (now_calls s') ?dd1 dd' sts"
    and l: "logged s' = logged s1 @ l" "only_changes rt l"
    by blast
  have "device_written rt (now_calls s) (now_calls s') dd dd' (st # sts)"
    using device_written_step[of rt "now_calls s" "now_calls s'" dd st dd' sts] dw n n1 by simp
  moreover have "write_states rt url (st # sts) s = (Inr (), s')" using w r by simp
  moreover have "frame s s'" using f1 f by (rule frame_trans)
  moreover have "now_calls s' = now_calls s + length (st # sts)" using n n1 by simp
  moreover have "\<forall>k. k \<noteq> url \<longrightarrow> devices (data s') k = devices (data s) k" using o d1 by simp
  moreover have "logged s' = logged s @ (?l1 @ l)" "only_changes rt (?l1 @ l)"
    using l l1 by (simp_all add: only_changes_def)
  ultimately show ?case using d by blast
qed


lemma device_written_refl: "device_written rt n0 n1 dd dd []"
  by (simp add: device_written_def written_def)

lemma device_written_widen:
  "device_written rt n0' n1' dd dd' sts \<Longrightarrow> n0 \<le> n0' \<Longrightarrow> n1' \<le> n1 \<Longrightarrow>
   device_written rt n0 n1 dd dd' sts"
  unfolding device_written_def
  by (cases "sts = []") (auto intro: order_trans less_le_trans)

lemma device_written_append:
  assumes a: "device_written rt n0 n1 dd dd1 a" and b: "device_written rt n1 n2 dd1 dd2 b"
    and le: "n0 \<le> n1" "n1 \<le> n2"
  shows "device_written rt n0 n2 dd dd2 (a @ b)"
proof -
  have 1: "states dd2 = written (states dd) (a @ b)"
    using a b by (simp add: device_written_def written_append)
  have a2: "dd1\<lparr>states := states dd, last_updated := last_updated dd\<rparr> = dd"
    and b2: "dd2\<lparr>states := states dd1, last_updated := last_updated dd1\<rparr> = dd1"
    using a b by (simp_all add: device_written_def)
  have "(dd2\<lparr>states := states dd1, last_updated := last_updated dd1\<rparr>)\<lparr>states := states dd, last_updated := last_updated dd\<rparr>
        = dd" using a2 b2 by simp
  then have 2: "dd2\<lparr>states := states dd, last_updated := last_updated dd\<rparr> = dd" by simp
  have 3: "if a @ b = [] then last_updated dd2 = last_updated dd
           else \<exists>k. n0 \<le> k \<and> k < n2 \<and> last_updated dd2 = clock rt k"
  proof (cases "b = []")
    case True
    then have e: "last_updated dd2 = last_updated dd1" using b by (simp add: device_written_def)
    show ?thesis
    proof (cases "a = []")
      case True
      then show ?thesis using a e \<open>b = []\<close> by (simp add: device_written_def)
    next
      case False
      then obtain k where "n0 \<le> k" "k < n1" "last_updated dd1 = clock rt k"
        using a by (auto simp: device_written_def)
      then have "n0 \<le> k \<and> k < n2 \<and> last_updated dd2 = clock rt k" using e le by simp
      then show ?thesis using False by auto
    qed
  next
    case False
    then obtain k where "n1 \<le> k" "k < n2" "last_updated dd2 = clock rt k"
      using b by (auto simp: device_written_def)
    then have "n0 \<le> k \<and> k < n2 \<and> last_updated dd2 = clock rt k" using le by simp
    then show ?thesis using False by auto
  qed
  show ?thesis using 1 2 3 by (simp add: device_written_def)
qed

lemma handle_device_state_unknown:
  "ds_device_url ds \<notin> dom (devices (data s)) \<Longrightarrow> handle_device_state rt ds s = (Inr (), s)"
  by (simp add: handle_device_state_def)

lemma handle_device_state_none:
  "ds_device_url ds \<in> dom (devices (data s)) \<Longrightarrow> ds_states ds = None \<Longrightarrow>
   handle_device_state rt ds s = (Inl not_iterable, s)"
  by (simp add: handle_device_state_def)

lemma handle_device_state_known:
  assumes "devices (data s) (ds_device_url ds) = Some dd" and "ds_states ds = Some sts"
  shows "\<exists>s' dd' l. handle_device_state rt ds s = (Inr (), s') \<and> frame s s'
     \<and> now_calls s' = now_calls s + length sts
     \<and> (\<forall>k. k \<noteq> ds_device_url ds \<longrightarrow> devices (data s') k = devices (data s) k)
     \<and> devices (data s') (ds_device_url ds) = Some dd'
     \<and> device_written rt (now_calls s) (now_calls s') dd dd' sts
     \<and> logged s' = logged s @ l \<and> only_changes rt l"
proof -
  have "ds_device_url ds \<in> dom (devices (data s))" using assms(1) by blast
  then have "handle_device_state rt ds s = write_states rt (ds_device_url ds) sts s"
    using assms(2) by (simp add: handle_device_state_def)
  then show ?thesis using write_states_known[OF assms(1), of rt sts] by simp
qed

text \<open>Whatever the payload, and whether or not the loop ends in an exception.\<close>

lemma handle_device_state_any:
  "\<exists>r s' l. handle_device_state rt ds s = (r, s') \<and> frame s s'
     \<and> logged s' = logged s @ l \<and> only_changes rt l
     \<and> (\<forall>k. k \<noteq> ds_device_url ds \<longrightarrow> devices (data s') k = devices (data s) k)
     \<and> (r = Inr () \<or> r = Inl not_iterable)"
proof (cases "devices (data s) (ds_device_url ds)")
  case None
  then have "ds_device_url ds \<notin> dom (devices (data s))" by blast
  then show ?thesis
    using handle_device_state_unknown[of ds s rt] by (simp add: frame_refl only_changes_def)
next
  case (Some dd)
  show ?thesis
  proof (cases "ds_states ds")
    case None
    have "ds_device_url ds \<in> dom (devices (data s))" using Some by blast
    then show ?thesis
      using handle_device_state_none[OF _ None, of s rt] by (simp add: frame_refl only_changes_def)
  next
    case (Some sts)
    from handle_device_state_known[OF \<open>devices (data s) (ds_device_url ds) = Some dd\<close> Some, of rt]
    show ?thesis by blast
  qed
qed

lemma handle_device_states_any:
  "\<exists>r s' l. handle_device_states rt dss s = (r, s') \<and> frame s s'
     \<and> logged s' = logged s @ l \<and> only_changes rt l
     \<and> (\<forall>k. k \<notin> ds_device_url ` set dss \<longrightarrow> devices (data s') k = devices (data s) k)
     \<and> (r = Inr () \<or> r = Inl not_iterable)"
proof (induction dss arbitrary: s)
  case Nil
  show ?case by (simp add: frame_refl only_changes_def)
next
  case (Cons ds dss)
  obtain r1 s1 l1 where h: "handle_device_state rt ds s = (r1, s1)" and f1: "frame s s1"
    and l1: "logged s1 = logged s @ l1" "only_changes rt l1"
    and o1: "\<forall>k. k \<noteq> ds_device_url ds \<longrightarrow> devices (data s1) k = devices (data s) k"
    and r1: "r1 = Inr () \<or> r1 = Inl not_iterable"
    using handle_device_state_any[of rt ds s] by blast
  show ?case
  proof (cases r1)
    case (Inl e)
    then have "handle_device_states rt (ds # dss) s = (r1, s1)" using h by simp
    moreover have "\<forall>k. k \<notin> ds_device_url ` set (ds # dss) \<longrightarrow> devices (data s1) k = devices (data s) k"
      using o1 by simp
    ultimately show ?thesis using f1 l1 r1 by blast
  next
    case (Inr u)
    obtain r s' l where h2: "handle_device_states rt dss s1 = (r, s')" and f2: "frame s1 s'"
      and l2: "logged s' = logged s1 @ l" "only_changes rt l"
      and o2: "\<forall>k. k \<notin> ds_device_url ` set dss \<longrightarrow> devices (data s') k = devices (data s1) k"
      and r2: "r = Inr () \<or> r = Inl not_iterable"
      using Cons.IH[of s1] by blast
    have "handle_device_states rt (ds # dss) s = (r, s')" using h h2 Inr by simp
    moreover have "frame s s'" using f1 f2 by (rule frame_trans)
    moreover have "logged s' = logged s @ (l1 @ l)" "only_changes rt (l1 @ l)"
      using l1 l2 by (simp_all add: only_changes_def)
    moreover have "\<forall>k. k \<notin> ds_device_url ` set (ds # dss) \<longrightarrow> devices (data s') k = devices (data s) k"
      using o1 o2 by simp
    ultimately show ?thesis using r2 by blast
  qed
qed

lemma handle_device_states_unknown:
  "\<forall>ds\<in>set dss. ds_device_url ds \<notin> dom (devices (data s)) \<Longrightarrow>
   handle_device_states rt dss s = (Inr (), s)"
  by (induction dss) (simp_all add: handle_device_state_unknown)

lemma writes_for_Cons:
  "writes_for url (ds # dss) =
     (if ds_device_url ds = url then (case ds_states ds of None \<Rightarrow> [] | Some sts \<Rightarrow> sts) else [])
     @ writes_for url dss"
  by (simp add: writes_for_def)

lemma handle_device_states_written:
  assumes "has_state_lists dss"
  shows "\<exists>s' l. handle_device_states rt dss s = (Inr (), s') \<and> frame s s'
     \<and> logged s' = logged s @ l \<and> only_changes rt l
     \<and> (\<forall>url dd. devices (data s) url = Some dd \<longrightarrow>
           (\<exists>dd'. devices (data s') url = Some dd'
                 \<and> device_written rt (now_calls s) (now_calls s') dd dd' (writes_for url dss)))"
  using assms
proof (induction dss arbitrary: s)
  case Nil
  show ?case by (simp add: frame_refl only_changes_def writes_for_def device_written_refl)
next
  case (Cons ds dss)
  from Cons.prems obtain sts where sts: "ds_states ds = Some sts" and rest: "has_state_lists dss"
    by (auto simp: has_state_lists_def)
  have "\<exists>s1 l1. handle_device_state rt ds s = (Inr (), s1) \<and> frame s s1
     \<and> logged s1 = logged s @ l1 \<and> only_changes rt l1
     \<and> (\<forall>url dd. devices (data s) url = Some dd \<longrightarrow>
           (\<exists>dd1. devices (data s1) url = Some dd1
                 \<and> device_written rt (now_calls s) (now_calls s1) dd dd1
                      (if ds_device_url ds = url then sts else [])))"
  proof (cases "devices (data s) (ds_device_url ds)")
    case None
    then have "ds_device_url ds \<notin> dom (devices (data s))" by blast
    then have "handle_device_state rt ds s = (Inr (), s)" by (rule handle_device_state_unknown)
    moreover have "\<forall>url dd. devices (data s) url = Some dd \<longrightarrow>
           (\<exists>dd1. devices (data s) url = Some dd1
                 \<and> device_written rt (now_calls s) (now_calls s) dd dd1
                      (if ds_device_url ds = url then sts else []))"
      using None by (auto simp: device_written_refl)
    ultimately show ?thesis using frame_refl[of s] by (auto simp: only_changes_def)
  next
    case (Some dd0)
    from handle_device_state_known[OF Some sts, of rt] obtain s1 dd1 l1 where
      h: "handle_device_state rt ds s = (Inr (), s1)" and f: "frame s s1"
      and n: "now_calls s1 = now_calls s + length sts"
      and o: "\<forall>k. k \<noteq> ds_device_url ds \<longrightarrow> devices (data s1) k = devices (data s) k"
      and d: "devices (data s1) (ds_device_url ds) = Some dd1"
      and dw: "device_written rt (now_calls s) (now_calls s1) dd0 dd1 sts"
      and l: "logged s1 = logged s @ l1" "only_changes rt l1"
      by blast
    have "\<forall>url dd. devices (data s) url = Some dd \<longrightarrow>
           (\<exists>dd1. devices (data s1) url = Some dd1
                 \<and> device_written rt (now_calls s) (now_calls s1) dd dd1
                      (if ds_device_url ds = url then sts else []))"
      using Some o d dw by (auto simp: device_written_refl)
    then show ?thesis using h f l by blast
  qed
  then obtain s1 l1 where h: "handle_device_state rt ds s = (Inr (), s1)" and f1: "frame s s1"
    and l1: "logged s1 = logged s @ l1" "only_changes rt l1"
    and d1: "\<And>url dd. devices (data s) url = Some dd \<Longrightarrow>
           \<exists>dd1. devices (data s1) url = Some dd1
                 \<and> device_written rt (now_calls s) (now_calls s1) dd dd1
                      (if ds_device_url ds = url then sts else [])"
    by blast
  from Cons.IH[OF rest, of s1] obtain s' l where
    h2: "handle_device_states rt dss s1 = (Inr (), s')" and f2: "frame s1 s'"
    and l2: "logged s' = logged s1 @ l" "only_changes rt l"
    and d2: "\<And>url dd. devices (data s1) url = Some dd \<Longrightarrow>
           \<exists>dd'. devices (data s') url = Some dd'
                 \<and> device_written rt (now_calls s1) (now_calls s') dd dd' (writes_for url dss)"
    by blast
  have le: "now_calls s \<le> now_calls s1" "now_calls s1 \<le> now_calls s'"
    using f1 f2 by (simp_all add: frame_def)
  have "\<forall>url dd. devices (data s) url = Some dd \<longrightarrow>
           (\<exists>dd'. devices (data s') url = Some dd'
                 \<and> device_written rt (now_calls s) (now_calls s') dd dd' (writes_for url (ds # dss)))"
  proof (intro allI impI)
    fix url dd
    assume a: "devices (data s) url = Some dd"
    from d1[OF a] obtain dd1 where b: "devices (data s1) url = Some dd1"
      and w1: "device_written rt (now_calls s) (now_calls s1) dd dd1
                      (if ds_device_url ds = url then sts else [])" by blast
    from d2[OF b] obtain dd' where c: "devices (data s') url = Some dd'"
      and w2: "device_written rt (now_calls s1) (now_calls s') dd1 dd' (writes_for url dss)" by blast
    have "device_written rt (now_calls s) (now_calls s') dd dd'
            ((if ds_device_url ds = url then sts else []) @ writes_for url dss)"
      using device_written_append[OF w1 w2 le] .
    then show "\<exists>dd'. devices (data s') url = Some dd'
                 \<and> device_written rt (now_calls s) (now_calls s') dd dd' (writes_for url (ds # dss))"
      using c sts by (auto simp: writes_for_Cons split: if_splits)
  qed
  moreover have "handle_device_states rt (ds # dss) s = (Inr (), s')" using h h2 by simp
  moreover have "frame s s'" using f1 f2 by (rule frame_trans)
  moreover have "logged s' = logged s @ (l1 @ l)" "only_changes rt (l1 @ l)"
    using l1 l2 by (simp_all add: only_changes_def)
  ultimately show ?case by blast
qed

section \<open>One event\<close>

lemma process_event_eq: "process_event rt ev s = dispatch rt ev (logged_event rt ev s)"
  by (simp add: process_event_def Let_def now_def extract_all_attributes_reflected
      set_events_log_def log_line_def logged_event_def entry_for_def)

lemma handle_availability_change_any:
  "frame s (handle_availability_change ev a s)
   \<and> (\<forall>k. Some k \<noteq> ev_device_url ev \<longrightarrow>
         devices (data (handle_availability_change ev a s)) k = devices (data s) k)"
  by (auto simp: handle_availability_change_def frame_def set_device_def log_line_def
      split: option.splits)

lemma handle_availability_change_unknown:
  "\<forall>u. ev_device_url ev = Some u \<longrightarrow> u \<notin> dom (devices (data s)) \<Longrightarrow>
   handle_availability_change ev a s = s"
  by (auto simp: handle_availability_change_def split: option.splits)

lemma handle_state_change_any:
  "\<exists>r s' l. handle_state_change rt ev s = (r, s') \<and> frame s s'
     \<and> logged s' = logged s @ l \<and> only_changes rt l
     \<and> (r = Inr () \<or> r = Inl not_iterable)"
proof (cases "ev_device_states ev")
  case None
  then show ?thesis by (simp add: handle_state_change_def frame_refl only_changes_def)
next
  case (Some dss)
  then show ?thesis using handle_device_states_any[of rt dss s]
    by (auto simp: handle_state_change_def)
qed

lemma dispatch_any:
  "\<exists>r s'. dispatch rt ev s = (r, s') \<and> frame s s'
     \<and> (r = Inr () \<or> r = Inl not_iterable)"
proof (cases "ev_name ev = DEVICE_STATE_CHANGED")
  case True
  then show ?thesis using handle_state_change_any[of rt ev s] by (auto simp: dispatch_def)
next
  case False
  have "frame s (log_line r s)" for r by (simp add: frame_def log_line_def)
  then show ?thesis using False handle_availability_change_any[of s ev]
    by (auto simp: dispatch_def frame_refl)
qed

lemma process_event_any:
  "\<exists>r s'. process_event rt ev s = (r, s') \<and> frame (logged_event rt ev s) s'
     \<and> (r = Inr () \<or> r = Inl not_iterable)"
  unfolding process_event_eq by (rule dispatch_any)

lemma process_event_frame: "frame (logged_event rt ev s) (snd (process_event rt ev s))"
  using process_event_any[of rt ev s] by auto

lemma process_event_log:
  "events_log (data (snd (process_event rt ev s)))
     = keep_last_1000 (events_log (data s) @ [entry_for rt ev s])"
  using process_event_frame[of rt ev s] by (simp add: frame_def logged_event_def)

lemma process_event_count: "event_count (snd (process_event rt ev s)) = Suc (event_count s)"
  using process_event_frame[of rt ev s] by (simp add: frame_def logged_event_def)

lemma process_event_dom:
  "dom (devices (data (snd (process_event rt ev s)))) = dom (devices (data s))"
  using process_event_frame[of rt ev s] by (simp add: frame_def logged_event_def)

lemma process_event_now: "now_calls s < now_calls (snd (process_event rt ev s))"
  using process_event_frame[of rt ev s] by (simp add: frame_def logged_event_def)

lemma process_event_rest:
  "gateways (data (snd (process_event rt ev s))) = gateways (data s)
   \<and> last_full_refresh (data (snd (process_event rt ev s))) = last_full_refresh (data s)
   \<and> raw_api_responses (data (snd (process_event rt ev s))) = raw_api_responses (data s)"
  using process_event_frame[of rt ev s] by (simp add: frame_def logged_event_def)

section \<open>The rolling log\<close>

lemma keep_last_1000_drop: "keep_last_1000 l = drop (length l - 1000) l"
  by (simp add: keep_last_1000_def)

lemma length_keep_last_1000: "length (keep_last_1000 l) \<le> 1000"
  by (simp add: keep_last_1000_def)

lemma drop_drop_tail:
  "drop (length (drop (length xs - n) xs @ ys) - n) (drop (length xs - n) xs @ ys)
     = drop (length (xs @ ys) - n) (xs @ ys)"
proof (cases "length xs \<le> n")
  case True
  then show ?thesis by simp
next
  case False
  then have "length (drop (length xs - n) xs) = n" by simp
  then have "drop (length (drop (length xs - n) xs @ ys) - n) (drop (length xs - n) xs @ ys)
        = drop (length ys) (drop (length xs - n) xs @ ys)" by simp
  also have "\<dots> = drop (length ys) (drop (length xs - n) (xs @ ys))" by simp
  also have "\<dots> = drop (length (xs @ ys) - n) (xs @ ys)" using False by (simp add: add.commute)
  finally show ?thesis .
qed

lemma process_each_log:
  "length (events_log (data s)) \<le> 1000 \<Longrightarrow>
   events_log (data (process_each rt evs s))
     = keep_last_1000 (events_log (data s) @ appended rt evs s)"
proof (induction evs arbitrary: s)
  case Nil
  then show ?case by (simp add: keep_last_1000_def)
next
  case (Cons ev evs)
  let ?s1 = "snd (process_event rt ev s)"
  have l1: "events_log (data ?s1) = keep_last_1000 (events_log (data s) @ [entry_for rt ev s])"
    by (rule process_event_log)
  then have "length (events_log (data ?s1)) \<le> 1000" by (simp add: length_keep_last_1000)
  from Cons.IH[OF this]
  have "events_log (data (process_each rt (ev # evs) s))
          = keep_last_1000 (events_log (data ?s1) @ appended rt evs ?s1)" by simp
  also have "\<dots> = keep_last_1000 ((events_log (data s) @ [entry_for rt ev s]) @ appended rt evs ?s1)"
    unfolding l1 keep_last_1000_drop by (rule drop_drop_tail)
  finally show ?case by simp
qed

lemma length_appended: "length (appended rt evs s) = length evs"
  by (induction evs arbitrary: s) simp_all

lemma names_appended: "map name (appended rt evs s) = map ev_name evs"
  by (induction evs arbitrary: s) (simp_all add: entry_for_def)

lemma raws_appended: "map raw (appended rt evs s) = map (\<lambda>ev. reflected rt (ev_reflected ev)) evs"
  by (induction evs arbitrary: s) (simp_all add: entry_for_def)

lemma numbers_appended:
  "map event_number (appended rt evs s) = [Suc (event_count s) ..< Suc (event_count s + length evs)]"
proof (induction evs arbitrary: s)
  case Nil
  show ?case by simp
next
  case (Cons ev evs)
  have "[Suc (event_count s) ..< Suc (event_count s + length (ev # evs))]
          = Suc (event_count s) # [Suc (Suc (event_count s)) ..< Suc (Suc (event_count s) + length evs)]"
    by (subst upt_rec) simp
  then show ?case
    by (simp add: Cons.IH process_event_count entry_for_def)
qed

lemma process_each_count: "event_count (process_each rt evs s) = event_count s + length evs"
  by (induction evs arbitrary: s) (simp_all add: process_event_count)

lemma process_each_append:
  "process_each rt (a @ b) s = process_each rt b (process_each rt a s)"
  by (induction a arbitrary: s) simp_all

section \<open>The counter and the order of the log\<close>

lemma log_ordered_event:
  assumes "log_ordered s"
  shows "log_ordered (snd (process_event rt ev s))"
proof -
  let ?l = "events_log (data s) @ [entry_for rt ev s]"
  have a: "sorted_wrt (<) (map event_number ?l)"
    using assms by (auto simp: log_ordered_def sorted_wrt_append entry_for_def list_all_iff)
  have b: "list_all (\<lambda>en. event_number en \<le> Suc (event_count s)) ?l"
    using assms by (auto simp: log_ordered_def entry_for_def list_all_iff)
  have "sorted_wrt (<) (drop (length ?l - 1000) (map event_number ?l))"
    using a by (rule sorted_wrt_drop)
  then have "sorted_wrt (<) (map event_number (drop (length ?l - 1000) ?l))"
    by (simp only: drop_map)
  moreover have "list_all (\<lambda>en. event_number en \<le> Suc (event_count s)) (drop (length ?l - 1000) ?l)"
    using b by (auto simp: list_all_iff dest: in_set_dropD)
  ultimately show ?thesis
    unfolding log_ordered_def process_event_log process_event_count keep_last_1000_drop by simp
qed

lemma log_ordered_each: "log_ordered s \<Longrightarrow> log_ordered (process_each rt evs s)"
  by (induction evs arbitrary: s) (simp_all add: log_ordered_event)

lemma log_ordered_fresh: "log_ordered fresh"
  by (simp add: log_ordered_def fresh_def)

lemma log_ordered_setup: "log_ordered s \<Longrightarrow> log_ordered (snd (process_setup rt su s))"
  by (simp add: process_setup_eq log_ordered_def)

section \<open>The full-refresh condition\<close>

text \<open>
  C6. The spec has a full Setup fetch exactly when no full resync has happened or more than
  300 seconds have passed since the last one. The condition of the code reads the
  \<^verbatim>\<open>seconds\<close> field of the elapsed time, which drops the microseconds and the whole
  days: with the last full refresh at time 0, no refresh is due at 300.5 seconds, nor at one
  day and ten seconds, and the refresh cycle at that reading leaves the gateway list and the
  refresh time as they were. When the local clock reads ten seconds less than at the last
  full refresh, a refresh is due.
\<close>

theorem full_refresh_skipped_after_more_than_300_seconds:
  "fst (full_refresh_due (ex_clock 300500000) (set_last_full_refresh 0 fresh)) = False
   \<and> fst (full_refresh_due (ex_clock 86410000000) (set_last_full_refresh 0 fresh)) = False
   \<and> fst (full_refresh_due (ex_clock 0) (set_last_full_refresh 10000000 fresh)) = True
   \<and> fst (async_update_data (ex_clock 86410000000) (Inr []) (Inr ex_setup)
            (set_last_full_refresh 0 fresh))
       = Inr (data (set_last_full_refresh 0 fresh))"
  by (simp add: full_refresh_due_def async_update_data_def update_body_def now_def
      td_seconds_def set_last_full_refresh_def fresh_def ex_clock_def)

section \<open>The refresh cycle\<close>

lemma process_events_each:
  "\<exists>k\<le>length evs. snd (process_events rt evs s) = process_each rt (take k evs) s
      \<and> (fst (process_events rt evs s) = Inr () \<longrightarrow> k = length evs)
      \<and> (fst (process_events rt evs s) = Inr ()
          \<or> fst (process_events rt evs s) = Inl not_iterable)"
proof (induction evs arbitrary: s)
  case Nil
  show ?case by simp
next
  case (Cons ev evs)
  obtain r s1 where p: "process_event rt ev s = (r, s1)"
    and r: "r = Inr () \<or> r = Inl not_iterable"
    using process_event_any[of rt ev s] by blast
  show ?case
  proof (cases r)
    case (Inl e)
    then have "snd (process_events rt (ev # evs) s) = process_each rt (take 1 (ev # evs)) s"
      and "fst (process_events rt (ev # evs) s) = Inl not_iterable"
      using p r by simp_all
    then show ?thesis by (intro exI[of _ 1]) simp
  next
    case (Inr u)
    from Cons.IH[of s1] obtain k where k: "k \<le> length evs"
      "snd (process_events rt evs s1) = process_each rt (take k evs) s1"
      "fst (process_events rt evs s1) = Inr () \<longrightarrow> k = length evs"
      "fst (process_events rt evs s1) = Inr ()
          \<or> fst (process_events rt evs s1) = Inl not_iterable"
      by blast
    have e: "process_events rt (ev # evs) s = process_events rt evs s1" using p Inr by simp
    show ?thesis unfolding e using k p by (intro exI[of _ "Suc k"]) simp
  qed
qed

lemma full_refresh_due_state:
  "snd (full_refresh_due rt s) = s \<or> snd (full_refresh_due rt s) = s\<lparr>now_calls := Suc (now_calls s)\<rparr>"
  by (simp add: full_refresh_due_def now_def split: option.splits)

text \<open>
  The state a refresh cycle leaves: some of the events processed, then possibly the clock
  read, a line logged and a Setup normalized, then possibly the failure logged.
\<close>

lemma update_body_state:
  "\<exists>evs s1 s2. s1 = process_each rt evs s
      \<and> (s2 = s1 \<or> s2 = s1\<lparr>now_calls := Suc (now_calls s1)\<rparr>)
      \<and> (snd (update_body rt fetched got_setup s) = s2
          \<or> snd (update_body rt fetched got_setup s) = log_line FullSetupRefresh s2
          \<or> (\<exists>su. snd (update_body rt fetched got_setup s)
                     = snd (process_setup rt su (log_line FullSetupRefresh s2))))"
proof (cases fetched)
  case (Inl e)
  have "s = process_each rt [] s" by simp
  moreover have "snd (update_body rt fetched got_setup s) = s" using Inl by (simp add: update_body_def)
  ultimately show ?thesis by metis
next
  case (Inr events)
  obtain k where k: "snd (process_events rt events s) = process_each rt (take k events) s"
    using process_events_each[of events rt s] by blast
  obtain r s1 where p: "process_events rt events s = (r, s1)" by (cases "process_events rt events s")
  then have s1: "s1 = process_each rt (take k events) s" using k by simp
  show ?thesis
  proof (cases r)
    case (Inl e)
    then have "snd (update_body rt fetched got_setup s) = s1"
      using Inr p by (simp add: update_body_def)
    then show ?thesis using s1 by metis
  next
    case r: (Inr u)
    obtain due s2 where f: "full_refresh_due rt s1 = (due, s2)" by (cases "full_refresh_due rt s1")
    then have s2: "s2 = s1 \<or> s2 = s1\<lparr>now_calls := Suc (now_calls s1)\<rparr>"
      using full_refresh_due_state[of rt s1] by simp
    show ?thesis
    proof (cases due)
      case False
      then have "snd (update_body rt fetched got_setup s) = s2"
        using Inr p r f by (simp add: update_body_def)
      then show ?thesis using s1 s2 by metis
    next
      case True
      show ?thesis
      proof (cases got_setup)
        case (Inl e)
        then have "snd (update_body rt fetched got_setup s) = log_line FullSetupRefresh s2"
          using Inr p r f True by (simp add: update_body_def)
        then show ?thesis using s1 s2 by metis
      next
        case su: (Inr su)
        obtain s4 where "process_setup rt su (log_line FullSetupRefresh s2) = (Inr (), s4)"
          by (simp add: process_setup_eq)
        then have "snd (update_body rt fetched got_setup s)
                     = snd (process_setup rt su (log_line FullSetupRefresh s2))"
          using Inr p r f True su by (simp add: update_body_def Let_def)
        then show ?thesis using s1 s2 by metis
      qed
    qed
  qed
qed

lemma async_update_data_state:
  "snd (async_update_data rt fetched got_setup s) = snd (update_body rt fetched got_setup s)
   \<or> (\<exists>exc. snd (async_update_data rt fetched got_setup s)
               = log_line (ErrorFetching exc) (snd (update_body rt fetched got_setup s)))"
  by (cases "update_body rt fetched got_setup s")
     (auto simp: async_update_data_def split: sum.splits)


lemma async_update_data_preserves:
  assumes "P s"
    and ev: "\<And>s ev. P s \<Longrightarrow> P (snd (process_event rt ev s))"
    and tick: "\<And>s. P s \<Longrightarrow> P (s\<lparr>now_calls := Suc (now_calls s)\<rparr>)"
    and line: "\<And>s r. P s \<Longrightarrow> P (log_line r s)"
    and su: "\<And>s su. P s \<Longrightarrow> P (snd (process_setup rt su s))"
  shows "P (snd (async_update_data rt fetched got_setup s))"
proof -
  have each: "P (process_each rt evs s)" for evs
    using assms(1) by (induction evs arbitrary: s) (simp_all add: ev)
  obtain evs s1 s2 where s1: "s1 = process_each rt evs s"
    and s2: "s2 = s1 \<or> s2 = s1\<lparr>now_calls := Suc (now_calls s1)\<rparr>"
    and b: "snd (update_body rt fetched got_setup s) = s2
          \<or> snd (update_body rt fetched got_setup s) = log_line FullSetupRefresh s2
          \<or> (\<exists>su. snd (update_body rt fetched got_setup s)
                     = snd (process_setup rt su (log_line FullSetupRefresh s2)))"
    using update_body_state[of rt s fetched got_setup] by blast
  have "P s1" using each s1 by simp
  then have "P s2" using s2 tick by auto
  then have "P (snd (update_body rt fetched got_setup s))" using b line su by auto
  then show ?thesis using async_update_data_state[of rt fetched got_setup s] line by auto
qed

lemma dom_devices_after:
  "dom (devices_after rt devs k m) = dom m \<union> dev_device_url ` set devs"
  by (induction devs arbitrary: k m) auto

lemma retained_refl: "retained s s"
  by (simp add: retained_def)

lemma retained_trans: "retained a b \<Longrightarrow> retained b c \<Longrightarrow> retained a c"
  unfolding retained_def by (meson order_trans prefix_order.order_trans)

lemma retained_event: "retained s (snd (process_event rt ev s))"
  by (simp add: retained_def process_event_dom process_event_rest process_event_count)

lemma retained_setup: "retained s (snd (process_setup rt su s))"
  by (auto simp: retained_def process_setup_eq dom_devices_after)

lemma retained_async: "retained s (snd (async_update_data rt fetched got_setup s))"
proof (rule async_update_data_preserves[where P = "retained s"])
  show "retained s s" by (rule retained_refl)
next
  fix t ev assume "retained s t"
  then show "retained s (snd (process_event rt ev t))"
    using retained_event retained_trans by blast
next
  fix t assume "retained s t"
  then show "retained s (t\<lparr>now_calls := Suc (now_calls t)\<rparr>)" by (simp add: retained_def)
next
  fix t r assume "retained s t"
  then show "retained s (log_line r t)" by (simp add: retained_def log_line_def)
next
  fix t su assume "retained s t"
  then show "retained s (snd (process_setup rt su t))"
    using retained_setup retained_trans by blast
qed

lemma log_ordered_async:
  assumes "log_ordered s"
  shows "log_ordered (snd (async_update_data rt fetched got_setup s))"
proof (rule async_update_data_preserves[where P = log_ordered])
  show "log_ordered s" by (rule assms)
next
  fix t ev assume "log_ordered t"
  then show "log_ordered (snd (process_event rt ev t))" by (rule log_ordered_event)
next
  fix t assume "log_ordered t"
  then show "log_ordered (t\<lparr>now_calls := Suc (now_calls t)\<rparr>)" by (simp add: log_ordered_def)
next
  fix t r assume "log_ordered t"
  then show "log_ordered (log_line r t)" by (simp add: log_ordered_def log_line_def)
next
  fix t su assume "log_ordered t"
  then show "log_ordered (snd (process_setup rt su t))" by (rule log_ordered_setup)
qed

section \<open>The rolling event log\<close>

text \<open>
  C1. Whatever events are handed to \<^verbatim>\<open>_process_event\<close> one at a time, from a log of
  at most 1000 entries: the log never exceeds 1000 entries; each call appends exactly one
  entry, the one it builds for its event, at the end, dropping the oldest entry when the log
  was full; and after more than 1000 events the log is exactly the entries built for the
  most recent 1000 of them, in the order of the events.
\<close>

theorem events_log_keeps_the_most_recent_1000:
  assumes "length (events_log (data s)) \<le> 1000"
  shows "length (events_log (data (process_each rt evs s))) \<le> 1000
    \<and> events_log (data (snd (process_event rt ev s)))
        = drop (Suc (length (events_log (data s))) - 1000)
            (events_log (data s) @ [entry_for rt ev s])
    \<and> length (appended rt evs s) = length evs
    \<and> map name (appended rt evs s) = map ev_name evs
    \<and> events_log (data (process_each rt evs s))
        = drop (length (events_log (data s)) + length evs - 1000)
            (events_log (data s) @ appended rt evs s)
    \<and> (1000 < length evs \<longrightarrow>
          events_log (data (process_each rt evs s))
            = drop (length evs - 1000) (appended rt evs s)
          \<and> map name (events_log (data (process_each rt evs s)))
            = map ev_name (drop (length evs - 1000) evs))"
proof -
  have all: "events_log (data (process_each rt evs s))
        = drop (length (events_log (data s)) + length evs - 1000)
            (events_log (data s) @ appended rt evs s)"
    using process_each_log[OF assms, of rt evs]
    by (simp add: keep_last_1000_drop length_appended)
  have one: "events_log (data (snd (process_event rt ev s)))
        = drop (Suc (length (events_log (data s))) - 1000)
            (events_log (data s) @ [entry_for rt ev s])"
    by (simp add: process_event_log keep_last_1000_drop)
  have len: "length (events_log (data (process_each rt evs s))) \<le> 1000"
    using assms by (simp add: all length_appended)
  have many: "events_log (data (process_each rt evs s))
            = drop (length evs - 1000) (appended rt evs s)" if "1000 < length evs"
    using that assms by (simp add: all length_appended)
  have "map name (events_log (data (process_each rt evs s)))
            = map ev_name (drop (length evs - 1000) evs)" if "1000 < length evs"
    using many[OF that] by (simp add: drop_map[symmetric] names_appended)
  then show ?thesis using all one len many by (simp add: length_appended names_appended)
qed

theorem events_log_keeps_the_most_recent_1000_witness:
  "length (events_log (data fresh)) \<le> 1000
   \<and> 1000 < length (replicate 1001 (ex_event 46))
   \<and> length (events_log (data (process_each ex_rt (replicate 1001 (ex_event 46)) fresh))) \<le> 1000
   \<and> events_log (data (process_each ex_rt (replicate 1001 (ex_event 46)) fresh))
        = drop 1 (appended ex_rt (replicate 1001 (ex_event 46)) fresh)"
proof -
  have h: "length (events_log (data fresh)) \<le> 1000" by (simp add: fresh_def)
  have n: "1000 < length (replicate 1001 (ex_event 46))" by simp
  have d: "length (replicate 1001 (ex_event 46)) - 1000 = 1" by simp
  show ?thesis
    using events_log_keeps_the_most_recent_1000[OF h, of ex_rt "replicate 1001 (ex_event 46)"] h n
    unfolding d by blast
qed

section \<open>The event counter\<close>

text \<open>
  C10. The counter goes up by exactly one with each event processed and nothing resets it:
  normalizing a Setup leaves it, a refresh cycle never lowers it, and after any events it is
  the counter before plus their number, so from construction it is the number of events
  ever processed. The entry appended for an event carries a number greater than that of
  every entry in the log, and the log stays strictly increasing in event number through
  events, evictions, Setup normalizations and refresh cycles.
\<close>

theorem event_count_counts_every_event:
  assumes "log_ordered s"
  shows "event_count (snd (process_event rt ev s)) = event_count s + 1
    \<and> list_all (\<lambda>en. event_number en < event_number (entry_for rt ev s)) (events_log (data s))
    \<and> log_ordered (snd (process_event rt ev s))
    \<and> event_count (process_each rt evs s) = event_count s + length evs
    \<and> sorted_wrt (<) (map event_number (events_log (data (process_each rt evs s))))
    \<and> event_count (snd (process_setup rt su s)) = event_count s
    \<and> log_ordered (snd (process_setup rt su s))
    \<and> event_count s \<le> event_count (snd (async_update_data rt fetched got_setup s))
    \<and> log_ordered (snd (async_update_data rt fetched got_setup s))
    \<and> event_count (process_each rt evs (snd (init rt su))) = length evs
    \<and> log_ordered (process_each rt evs (snd (init rt su)))"
proof -
  have 1: "event_count (snd (process_event rt ev s)) = event_count s + 1"
    by (simp add: process_event_count)
  have 2: "list_all (\<lambda>en. event_number en < event_number (entry_for rt ev s)) (events_log (data s))"
    using assms by (auto simp: log_ordered_def list_all_iff entry_for_def)
  have 3: "log_ordered (snd (process_event rt ev s))" using assms by (rule log_ordered_event)
  have 4: "event_count (process_each rt evs s) = event_count s + length evs"
    by (rule process_each_count)
  have 5: "sorted_wrt (<) (map event_number (events_log (data (process_each rt evs s))))"
    using log_ordered_each[OF assms, of rt evs] by (simp add: log_ordered_def)
  have 6: "event_count (snd (process_setup rt su s)) = event_count s"
    by (simp add: process_setup_eq)
  have 7: "log_ordered (snd (process_setup rt su s))" using assms by (rule log_ordered_setup)
  have 8: "event_count s \<le> event_count (snd (async_update_data rt fetched got_setup s))"
    using retained_async[of s rt fetched got_setup] by (simp add: retained_def)
  have 9: "log_ordered (snd (async_update_data rt fetched got_setup s))"
    using assms by (rule log_ordered_async)
  have i: "log_ordered (snd (init rt su))" "event_count (snd (init rt su)) = 0"
    by (simp_all add: init_def process_setup_eq log_ordered_def fresh_def)
  have 10: "event_count (process_each rt evs (snd (init rt su))) = length evs"
    by (simp add: process_each_count i)
  have 11: "log_ordered (process_each rt evs (snd (init rt su)))"
    using i(1) by (rule log_ordered_each)
  show ?thesis using 1 2 3 4 5 6 7 8 9 10 11 by blast
qed

theorem event_count_counts_every_event_witness:
  "log_ordered fresh
   \<and> event_count (process_each ex_rt (replicate 1001 (ex_event 46)) fresh) = 1001
   \<and> length (events_log (data (process_each ex_rt (replicate 1001 (ex_event 46)) fresh))) \<le> 1000
   \<and> sorted_wrt (<) (map event_number
        (events_log (data (process_each ex_rt (replicate 1001 (ex_event 46)) fresh))))
   \<and> map event_number
        (events_log (data (process_each ex_rt [ex_event 46, ex_event 47] (snd (init ex_rt ex_setup)))))
      = [1, 2]"
proof -
  have h: "log_ordered fresh" by (rule log_ordered_fresh)
  have c: "event_count fresh = 0" "length (events_log (data fresh)) \<le> 1000"
    by (simp_all add: fresh_def)
  have l: "length (events_log (data (process_each ex_rt (replicate 1001 (ex_event 46)) fresh))) \<le> 1000"
    using process_each_log[OF c(2), of ex_rt "replicate 1001 (ex_event 46)"]
    by (simp add: length_keep_last_1000)
  have e: "map event_number
        (events_log (data (process_each ex_rt [ex_event 46, ex_event 47] (snd (init ex_rt ex_setup)))))
      = [1, 2]"
    by (simp add: process_event_log entry_for_def process_event_count keep_last_1000_def
        init_def process_setup_eq fresh_def)
  show ?thesis
    using event_count_counts_every_event[OF h, of ex_rt _ "replicate 1001 (ex_event 46)"] h c l e
    by simp
qed

section \<open>The concrete snapshot\<close>

lemma ex_clock_reading: "clock ex_rt k = 100 + int k"
  by (simp add: ex_rt_def)

lemma ex_device_url: "dev_device_url ex_device = ''dev-1''"
  by (simp add: ex_device_def)

lemma ex_init:
  "init ex_rt ex_setup =
     (Inr (), \<lparr>data = \<lparr>devices = [''dev-1'' \<mapsto> device_data_of ex_rt ex_device 100],
                        gateways = [reflected ex_rt ex_gateway], events_log = [],
                        raw_api_responses = [], last_full_refresh = Some 101\<rparr>,
               event_count = 0, now_calls = 2,
               logged = [ProcessedGateway (reflected ex_rt ex_gateway)]\<rparr>)"
  by (simp add: init_def process_setup_eq fresh_def ex_setup_def ex_clock_reading ex_device_url)

lemma ex_gateway_reflected:
  "reflected ex_rt ex_gateway =
     [(''gateway_id'', PStr ''1234-5678-9012''),
      (''place'', PStr ''<error: boom>''),
      (''sub_type'', PStr ''<error: no sub type>'')]"
  by (simp add: reflected_def extract_all_attributes_def ex_gateway_def try_except_def
      startswith_underscore_def error_marker_def ex_rt_def ex_str_def)

section \<open>Failures of a refresh cycle\<close>

lemma async_update_data_failed:
  "update_body rt fetched got_setup s = (Inl exc, s') \<Longrightarrow>
   async_update_data rt fetched got_setup s =
     (Inl (UpdateFailed (''Error communicating with API: '' @ exn_str exc) exc),
      log_line (ErrorFetching exc) s')"
  by (simp add: async_update_data_def)

lemma async_update_data_returned:
  "update_body rt fetched got_setup s = (Inr d, s') \<Longrightarrow>
   async_update_data rt fetched got_setup s = (Inr d, s')"
  by (simp add: async_update_data_def)

lemma full_refresh_due_data: "data (snd (full_refresh_due rt s)) = data s"
  using full_refresh_due_state[of rt s] by auto

text \<open>
  C8. Whatever exception ends the body of a refresh cycle, \<^verbatim>\<open>_async_update_data\<close>
  raises \<^verbatim>\<open>UpdateFailed\<close> with that exception as its cause, and it raises nothing
  else. The snapshot is the one the exception left: as before the cycle when fetching the
  events fails, as the event loop left it when processing an event fails, as the processed
  events left it when fetching the Setup fails. In every case each device key of before is
  still there and the gateway records of before are still the first of the list.
\<close>

theorem refresh_failure_is_update_failed_and_keeps_snapshot:
  "(\<forall>x. fst (async_update_data rt fetched got_setup s) = Inl x \<longrightarrow>
        (\<exists>exc. fst (update_body rt fetched got_setup s) = Inl exc
             \<and> x = UpdateFailed (''Error communicating with API: '' @ exn_str exc) exc))
   \<and> (\<forall>exc. fst (update_body rt fetched got_setup s) = Inl exc \<longrightarrow>
        fst (async_update_data rt fetched got_setup s)
          = Inl (UpdateFailed (''Error communicating with API: '' @ exn_str exc) exc)
        \<and> data (snd (async_update_data rt fetched got_setup s))
          = data (snd (update_body rt fetched got_setup s)))
   \<and> (\<forall>exc. fetched = Inl exc \<longrightarrow>
        fst (async_update_data rt fetched got_setup s)
          = Inl (UpdateFailed (''Error communicating with API: '' @ exn_str exc) exc)
        \<and> data (snd (async_update_data rt fetched got_setup s)) = data s)
   \<and> (\<forall>evs exc s1. fetched = Inr evs \<longrightarrow> process_events rt evs s = (Inl exc, s1) \<longrightarrow>
        fst (async_update_data rt fetched got_setup s)
          = Inl (UpdateFailed (''Error communicating with API: '' @ exn_str exc) exc)
        \<and> data (snd (async_update_data rt fetched got_setup s)) = data s1)
   \<and> (\<forall>evs exc s1. fetched = Inr evs \<longrightarrow> process_events rt evs s = (Inr (), s1) \<longrightarrow>
        fst (full_refresh_due rt s1) \<longrightarrow> got_setup = Inl exc \<longrightarrow>
        fst (async_update_data rt fetched got_setup s)
          = Inl (UpdateFailed (''Error communicating with API: '' @ exn_str exc) exc)
        \<and> data (snd (async_update_data rt fetched got_setup s)) = data s1)
   \<and> dom (devices (data s)) \<subseteq> dom (devices (data (snd (async_update_data rt fetched got_setup s))))
   \<and> prefix (gateways (data s)) (gateways (data (snd (async_update_data rt fetched got_setup s))))"
proof -
  obtain r s' where b: "update_body rt fetched got_setup s = (r, s')"
    by (cases "update_body rt fetched got_setup s")
  have 1: "\<forall>x. fst (async_update_data rt fetched got_setup s) = Inl x \<longrightarrow>
        (\<exists>exc. fst (update_body rt fetched got_setup s) = Inl exc
             \<and> x = UpdateFailed (''Error communicating with API: '' @ exn_str exc) exc)"
    using b by (cases r) (auto simp: async_update_data_def)
  have 2: "\<forall>exc. fst (update_body rt fetched got_setup s) = Inl exc \<longrightarrow>
        fst (async_update_data rt fetched got_setup s)
          = Inl (UpdateFailed (''Error communicating with API: '' @ exn_str exc) exc)
        \<and> data (snd (async_update_data rt fetched got_setup s))
          = data (snd (update_body rt fetched got_setup s))"
    using b by (cases r) (auto simp: async_update_data_def log_line_def)
  have 3: "\<forall>exc. fetched = Inl exc \<longrightarrow>
        fst (async_update_data rt fetched got_setup s)
          = Inl (UpdateFailed (''Error communicating with API: '' @ exn_str exc) exc)
        \<and> data (snd (async_update_data rt fetched got_setup s)) = data s"
    by (auto simp: async_update_data_def update_body_def log_line_def)
  have 4: "\<forall>evs exc s1. fetched = Inr evs \<longrightarrow> process_events rt evs s = (Inl exc, s1) \<longrightarrow>
        fst (async_update_data rt fetched got_setup s)
          = Inl (UpdateFailed (''Error communicating with API: '' @ exn_str exc) exc)
        \<and> data (snd (async_update_data rt fetched got_setup s)) = data s1"
    by (auto simp: async_update_data_def update_body_def log_line_def)
  have 5: "\<forall>evs exc s1. fetched = Inr evs \<longrightarrow> process_events rt evs s = (Inr (), s1) \<longrightarrow>
        fst (full_refresh_due rt s1) \<longrightarrow> got_setup = Inl exc \<longrightarrow>
        fst (async_update_data rt fetched got_setup s)
          = Inl (UpdateFailed (''Error communicating with API: '' @ exn_str exc) exc)
        \<and> data (snd (async_update_data rt fetched got_setup s)) = data s1"
  proof (intro allI impI)
    fix evs exc s1
    assume a: "fetched = Inr evs" "process_events rt evs s = (Inr (), s1)"
      "fst (full_refresh_due rt s1)" "got_setup = Inl exc"
    obtain s2 where f: "full_refresh_due rt s1 = (True, s2)"
      using a(3) by (cases "full_refresh_due rt s1") auto
    then have d: "data s2 = data s1" using full_refresh_due_data[of rt s1] by simp
    have "update_body rt fetched got_setup s = (Inl exc, log_line FullSetupRefresh s2)"
      using a f by (simp add: update_body_def)
    from async_update_data_failed[OF this] d
    show "fst (async_update_data rt fetched got_setup s)
          = Inl (UpdateFailed (''Error communicating with API: '' @ exn_str exc) exc)
        \<and> data (snd (async_update_data rt fetched got_setup s)) = data s1"
      by (simp add: log_line_def)
  qed
  have 6: "dom (devices (data s)) \<subseteq> dom (devices (data (snd (async_update_data rt fetched got_setup s))))
    \<and> prefix (gateways (data s)) (gateways (data (snd (async_update_data rt fetched got_setup s))))"
    using retained_async[of s rt fetched got_setup] by (simp add: retained_def)
  show ?thesis using 1 2 3 4 5 6 by blast
qed

theorem refresh_failure_is_update_failed_and_keeps_snapshot_witness:
  "fst (async_update_data ex_rt (Inl (Raised ''timeout'')) (Inr ex_setup) (snd (init ex_rt ex_setup)))
     = Inl (UpdateFailed ''Error communicating with API: timeout'' (Raised ''timeout''))
   \<and> data (snd (async_update_data ex_rt (Inl (Raised ''timeout'')) (Inr ex_setup)
                  (snd (init ex_rt ex_setup))))
     = data (snd (init ex_rt ex_setup))
   \<and> process_events ex_rt [ex_broken_event] (snd (init ex_rt ex_setup))
     = (Inl not_iterable, logged_event ex_rt ex_broken_event (snd (init ex_rt ex_setup)))
   \<and> fst (async_update_data ex_rt (Inr [ex_broken_event]) (Inr ex_setup) (snd (init ex_rt ex_setup)))
     = Inl (UpdateFailed (''Error communicating with API: '' @ exn_str not_iterable) not_iterable)
   \<and> devices (data (snd (async_update_data ex_rt (Inr [ex_broken_event]) (Inr ex_setup)
                  (snd (init ex_rt ex_setup)))))
     = [''dev-1'' \<mapsto> device_data_of ex_rt ex_device 100]
   \<and> map event_number (events_log (data (snd (async_update_data ex_rt (Inr [ex_broken_event])
                  (Inr ex_setup) (snd (init ex_rt ex_setup)))))) = [1]"
proof -
  let ?s = "snd (init ex_rt ex_setup)"
  have p: "process_events ex_rt [ex_broken_event] ?s
             = (Inl not_iterable, logged_event ex_rt ex_broken_event ?s)"
    by (simp add: process_event_eq dispatch_def handle_state_change_def handle_device_state_def
        ex_broken_event_def logged_event_def ex_init)
  have l: "devices (data (logged_event ex_rt ex_broken_event ?s))
             = [''dev-1'' \<mapsto> device_data_of ex_rt ex_device 100]"
      "map event_number (events_log (data (logged_event ex_rt ex_broken_event ?s))) = [1]"
    by (simp_all add: logged_event_def ex_init keep_last_1000_def entry_for_def)
  show ?thesis
    using refresh_failure_is_update_failed_and_keeps_snapshot
            [of ex_rt "Inl (Raised ''timeout'')" "Inr ex_setup" ?s]
          refresh_failure_is_update_failed_and_keeps_snapshot
            [of ex_rt "Inr [ex_broken_event]" "Inr ex_setup" ?s]
          p l
    by simp
qed

section \<open>Events for devices the snapshot does not have\<close>

lemma logged_event_devices: "devices (data (logged_event rt ev s)) = devices (data s)"
  by (simp add: logged_event_def)

lemma handle_state_change_unknown:
  assumes "\<forall>dss. ev_device_states ev = Some dss \<longrightarrow>
             (\<forall>ds\<in>set dss. ds_device_url ds \<notin> dom (devices (data s)))"
  shows "handle_state_change rt ev s = (Inr (), s)"
proof (cases "ev_device_states ev")
  case None
  then show ?thesis by (simp add: handle_state_change_def)
next
  case (Some dss)
  then have "\<forall>ds\<in>set dss. ds_device_url ds \<notin> dom (devices (data s))" using assms by blast
  then show ?thesis using Some by (simp add: handle_state_change_def handle_device_states_unknown)
qed

lemma handle_state_change_other:
  assumes "\<forall>dss. ev_device_states ev = Some dss \<longrightarrow> k \<notin> ds_device_url ` set dss"
  shows "devices (data (snd (handle_state_change rt ev s))) k = devices (data s) k"
proof (cases "ev_device_states ev")
  case None
  then show ?thesis by (simp add: handle_state_change_def)
next
  case (Some dss)
  then have "k \<notin> ds_device_url ` set dss" using assms by blast
  then show ?thesis using Some handle_device_states_any[of rt dss s]
    by (auto simp: handle_state_change_def)
qed

text \<open>
  C2. A state-changed event all of whose device URLs are unknown to the snapshot, and an
  availability event whose device URL is unknown (or missing), leave the device mapping as
  it was and raise nothing: the handler returns at once. No event ever adds or removes a
  key of the device mapping, and a state-changed or availability event leaves alone the
  record of every device it does not name.
\<close>

theorem unknown_device_event_is_ignored:
  "(ev_name ev = DEVICE_STATE_CHANGED \<longrightarrow>
      (\<forall>dss. ev_device_states ev = Some dss \<longrightarrow>
         (\<forall>ds\<in>set dss. ds_device_url ds \<notin> dom (devices (data s)))) \<longrightarrow>
      handle_state_change rt ev s = (Inr (), s)
      \<and> fst (process_event rt ev s) = Inr ()
      \<and> devices (data (snd (process_event rt ev s))) = devices (data s))
   \<and> (ev_name ev = DEVICE_AVAILABLE \<or> ev_name ev = DEVICE_UNAVAILABLE \<longrightarrow>
      (\<forall>u. ev_device_url ev = Some u \<longrightarrow> u \<notin> dom (devices (data s))) \<longrightarrow>
      handle_availability_change ev avail s = s
      \<and> fst (process_event rt ev s) = Inr ()
      \<and> devices (data (snd (process_event rt ev s))) = devices (data s))
   \<and> dom (devices (data (snd (process_event rt ev s)))) = dom (devices (data s))
   \<and> (ev_name ev = DEVICE_STATE_CHANGED \<longrightarrow>
      (\<forall>k. (\<forall>dss. ev_device_states ev = Some dss \<longrightarrow> k \<notin> ds_device_url ` set dss) \<longrightarrow>
           devices (data (snd (process_event rt ev s))) k = devices (data s) k))
   \<and> (ev_name ev = DEVICE_AVAILABLE \<or> ev_name ev = DEVICE_UNAVAILABLE \<longrightarrow>
      (\<forall>k. ev_device_url ev \<noteq> Some k \<longrightarrow>
           devices (data (snd (process_event rt ev s))) k = devices (data s) k))"
proof -
  let ?t = "logged_event rt ev s"
  have d: "devices (data ?t) = devices (data s)" by (rule logged_event_devices)
  have 1: "handle_state_change rt ev s = (Inr (), s)
      \<and> fst (process_event rt ev s) = Inr ()
      \<and> devices (data (snd (process_event rt ev s))) = devices (data s)"
    if n: "ev_name ev = DEVICE_STATE_CHANGED"
      and u: "\<forall>dss. ev_device_states ev = Some dss \<longrightarrow>
         (\<forall>ds\<in>set dss. ds_device_url ds \<notin> dom (devices (data s)))"
  proof -
    have "handle_state_change rt ev ?t = (Inr (), ?t)"
      using u by (intro handle_state_change_unknown) (simp add: d)
    then have "process_event rt ev s = (Inr (), ?t)"
      using n by (simp add: process_event_eq dispatch_def)
    then show ?thesis using handle_state_change_unknown[OF u, of rt] d by simp
  qed
  have 2: "handle_availability_change ev avail s = s
      \<and> fst (process_event rt ev s) = Inr ()
      \<and> devices (data (snd (process_event rt ev s))) = devices (data s)"
    if n: "ev_name ev = DEVICE_AVAILABLE \<or> ev_name ev = DEVICE_UNAVAILABLE"
      and u: "\<forall>u. ev_device_url ev = Some u \<longrightarrow> u \<notin> dom (devices (data s))"
  proof -
    have "handle_availability_change ev b ?t = ?t" for b
      using u by (intro handle_availability_change_unknown) (simp add: d)
    then have "process_event rt ev s = (Inr (), ?t)"
      using n by (auto simp: process_event_eq dispatch_def)
    then show ?thesis using handle_availability_change_unknown[OF u] d by simp
  qed
  have 3: "dom (devices (data (snd (process_event rt ev s)))) = dom (devices (data s))"
    by (rule process_event_dom)
  have 4: "devices (data (snd (process_event rt ev s))) k = devices (data s) k"
    if n: "ev_name ev = DEVICE_STATE_CHANGED"
      and o: "\<forall>dss. ev_device_states ev = Some dss \<longrightarrow> k \<notin> ds_device_url ` set dss" for k
    using handle_state_change_other[OF o, of rt ?t] n d
    by (simp add: process_event_eq dispatch_def)
  have 5: "devices (data (snd (process_event rt ev s))) k = devices (data s) k"
    if n: "ev_name ev = DEVICE_AVAILABLE \<or> ev_name ev = DEVICE_UNAVAILABLE"
      and o: "ev_device_url ev \<noteq> Some k" for k
  proof -
    have "Some k \<noteq> ev_device_url ev" using o by auto
    then have "devices (data (handle_availability_change ev b ?t)) k = devices (data ?t) k" for b
      using handle_availability_change_any[of ?t ev b] by blast
    then show ?thesis using n d by (auto simp: process_event_eq dispatch_def)
  qed
  show ?thesis using 1 2 3 4 5 by blast
qed

theorem unknown_device_event_is_ignored_witness:
  "ev_name ex_unknown_event = DEVICE_STATE_CHANGED
   \<and> ev_device_states ex_unknown_event
        = Some [\<lparr>ds_device_url = ''dev-2'', ds_states = Some [ex_state 46]\<rparr>]
   \<and> ''dev-2'' \<notin> dom (devices (data (snd (init ex_rt ex_setup))))
   \<and> fst (process_event ex_rt ex_unknown_event (snd (init ex_rt ex_setup))) = Inr ()
   \<and> devices (data (snd (process_event ex_rt ex_unknown_event (snd (init ex_rt ex_setup)))))
        = [''dev-1'' \<mapsto> device_data_of ex_rt ex_device 100]
   \<and> ev_name (ex_unavailable ''dev-2'') = DEVICE_UNAVAILABLE
   \<and> fst (process_event ex_rt (ex_unavailable ''dev-2'') (snd (init ex_rt ex_setup))) = Inr ()
   \<and> devices (data (snd (process_event ex_rt (ex_unavailable ''dev-2'') (snd (init ex_rt ex_setup)))))
        = [''dev-1'' \<mapsto> device_data_of ex_rt ex_device 100]"
proof -
  let ?s = "snd (init ex_rt ex_setup)"
  have a: "ev_name ex_unknown_event = DEVICE_STATE_CHANGED"
    "ev_device_states ex_unknown_event
        = Some [\<lparr>ds_device_url = ''dev-2'', ds_states = Some [ex_state 46]\<rparr>]"
    "ev_name (ex_unavailable ''dev-2'') = DEVICE_UNAVAILABLE"
    "ev_device_url (ex_unavailable ''dev-2'') = Some ''dev-2''"
    by (simp_all add: ex_unknown_event_def ex_unavailable_def)
  have b: "devices (data ?s) = [''dev-1'' \<mapsto> device_data_of ex_rt ex_device 100]"
    by (simp add: ex_init)
  then have c: "''dev-2'' \<notin> dom (devices (data ?s))" by simp
  show ?thesis
    using unknown_device_event_is_ignored[of ex_unknown_event ?s ex_rt]
          unknown_device_event_is_ignored[of "ex_unavailable ''dev-2''" ?s ex_rt]
          a b c
    by simp
qed

section \<open>Failing fields in the reflection sweep\<close>

lemma extract_all_attributes_field:
  assumes "distinct (map fst obj)" and "(n, got) \<in> set obj" and "\<not> startswith_underscore n"
  shows "map_of (reflected rt obj) n = field_result rt got"
proof -
  have "extract_loop rt obj [] = Inr (reflected rt obj)"
    using extract_all_attributes_reflected[of rt obj] by (simp add: extract_all_attributes_def)
  from extract_loop_field[OF this assms(1,2)] assms(3)
  show ?thesis by (simp split: option.splits)
qed

text \<open>
  C9. The sweep returns a mapping for every object, whatever its fields do. For an object
  whose field names are distinct (as those of \<^verbatim>\<open>dir\<close> are), the entry of each public
  field depends on that field alone: the error marker with the exception's text when reading
  the field or serializing its value raised, nothing when the value is callable, and the
  serialized value otherwise. So a failing field costs no other field its entry, and
  neither \<^verbatim>\<open>_process_device\<close> nor \<^verbatim>\<open>_process_setup\<close> raises: every gateway of
  the Setup gets its record and every device its entry.
\<close>

theorem sweep_never_raises:
  "extract_all_attributes rt obj = Inr (reflected rt obj)
   \<and> (distinct (map fst obj) \<longrightarrow>
        (\<forall>n got. (n, got) \<in> set obj \<longrightarrow> \<not> startswith_underscore n \<longrightarrow>
           map_of (reflected rt obj) n = field_result rt got
           \<and> (\<forall>e. got = Inl e \<longrightarrow> map_of (reflected rt obj) n = Some (error_marker e))
           \<and> (\<forall>e. try_body rt got = Inl e \<longrightarrow>
                 map_of (reflected rt obj) n = Some (error_marker e))
           \<and> (\<forall>j. try_body rt got = Inr j \<longrightarrow> map_of (reflected rt obj) n = j)))
   \<and> error_marker e = PStr (''<error: '' @ exn_str e @ ''>'')
   \<and> process_device rt dev s
        = (Inr (device_data_of rt dev (clock rt (now_calls s))),
           s\<lparr>now_calls := Suc (now_calls s)\<rparr>)
   \<and> raw_data (device_data_of rt dev t) = reflected rt (dev_reflected dev)
   \<and> fst (process_setup rt su s) = Inr ()
   \<and> gateways (data (snd (process_setup rt su s)))
        = gateways (data s) @ map (reflected rt) (su_gateways su)
   \<and> dom (devices (data (snd (process_setup rt su s))))
        = dom (devices (data s)) \<union> dev_device_url ` set (su_devices su)"
proof -
  have 1: "extract_all_attributes rt obj = Inr (reflected rt obj)"
    by (rule extract_all_attributes_reflected)
  have 2: "map_of (reflected rt obj) n = field_result rt got
           \<and> (\<forall>e. got = Inl e \<longrightarrow> map_of (reflected rt obj) n = Some (error_marker e))
           \<and> (\<forall>e. try_body rt got = Inl e \<longrightarrow>
                 map_of (reflected rt obj) n = Some (error_marker e))
           \<and> (\<forall>j. try_body rt got = Inr j \<longrightarrow> map_of (reflected rt obj) n = j)"
    if "distinct (map fst obj)" "(n, got) \<in> set obj" "\<not> startswith_underscore n" for n got
    using extract_all_attributes_field[OF that, of rt] by (auto simp: field_result_def)
  have 3: "error_marker e = PStr (''<error: '' @ exn_str e @ ''>'')"
    by (simp add: error_marker_def)
  have 4: "raw_data (device_data_of rt dev t) = reflected rt (dev_reflected dev)"
    by (simp add: device_data_of_def)
  have 5: "fst (process_setup rt su s) = Inr ()
   \<and> gateways (data (snd (process_setup rt su s)))
        = gateways (data s) @ map (reflected rt) (su_gateways su)
   \<and> dom (devices (data (snd (process_setup rt su s))))
        = dom (devices (data s)) \<union> dev_device_url ` set (su_devices su)"
    by (simp add: process_setup_eq dom_devices_after)
  show ?thesis using 1 2 3 4 5 process_device_eq[of rt dev s] by blast
qed

theorem sweep_never_raises_witness:
  "distinct (map fst ex_gateway)
   \<and> (''place'', Inr (PObj ''Place'' 0)) \<in> set ex_gateway
   \<and> try_body ex_rt (Inr (PObj ''Place'' 0)) = Inl (Raised ''boom'')
   \<and> (''sub_type'', Inl (Raised ''no sub type'')) \<in> set ex_gateway
   \<and> extract_all_attributes ex_rt ex_gateway
       = Inr [(''gateway_id'', PStr ''1234-5678-9012''),
              (''place'', PStr ''<error: boom>''),
              (''sub_type'', PStr ''<error: no sub type>'')]
   \<and> map_of (reflected ex_rt ex_gateway) ''place'' = Some (PStr ''<error: boom>'')
   \<and> map_of (reflected ex_rt ex_gateway) ''sub_type'' = Some (PStr ''<error: no sub type>'')
   \<and> map_of (reflected ex_rt ex_gateway) ''gateway_id'' = Some (PStr ''1234-5678-9012'')"
proof -
  have d: "distinct (map fst ex_gateway)" by (simp add: ex_gateway_def)
  have m: "(''place'', Inr (PObj ''Place'' 0)) \<in> set ex_gateway"
    "(''sub_type'', Inl (Raised ''no sub type'')) \<in> set ex_gateway"
    "(''gateway_id'', Inr (PStr ''1234-5678-9012'')) \<in> set ex_gateway"
    by (simp_all add: ex_gateway_def)
  have u: "\<not> startswith_underscore ''place''" "\<not> startswith_underscore ''sub_type''"
    "\<not> startswith_underscore ''gateway_id''"
    by (simp_all add: startswith_underscore_def)
  have t: "try_body ex_rt (Inr (PObj ''Place'' 0)) = Inl (Raised ''boom'')"
    "try_body ex_rt (Inr (PStr ''1234-5678-9012'')) = Inr (Some (PStr ''1234-5678-9012''))"
    by (simp_all add: ex_rt_def ex_str_def)
  show ?thesis
    using sweep_never_raises[of ex_rt ex_gateway] d m u t
    by (simp add: ex_gateway_reflected error_marker_def)
qed

section \<open>Running the Setup normalizer again\<close>

text \<open>
  C4. The spec has the normalizer replace the gateway list, so that a second run leaves one
  record per gateway. The code appends to the list and never empties it: after construction
  from a Setup with one gateway the list has that gateway's record, and after the next full
  refresh with the same Setup it has the record twice.
\<close>

lemma ex_setup_sel: "su_gateways ex_setup = [ex_gateway]" "su_devices ex_setup = [ex_device]"
  by (simp_all add: ex_setup_def)

theorem second_setup_run_duplicates_gateways:
  "gateways (data (snd (init ex_rt ex_setup))) = [reflected ex_rt ex_gateway]
   \<and> gateways (data (snd (process_setup ex_rt ex_setup (snd (init ex_rt ex_setup)))))
        = [reflected ex_rt ex_gateway, reflected ex_rt ex_gateway]
   \<and> length (su_gateways ex_setup) = 1"
  by (simp add: ex_init process_setup_eq ex_setup_sel)

lemma same_but_last_updated_device_data_of:
  "same_but_last_updated (device_data_of rt dev t) (device_data_of rt dev t')"
  by (simp add: same_but_last_updated_def device_data_of_def)

lemma device_url_device_data_of: "device_url (device_data_of rt dev t) = dev_device_url dev"
  by (simp add: device_data_of_def)

lemma latest_device_url: "latest_device url devs = Some dev \<Longrightarrow> dev_device_url dev = url"
  unfolding latest_device_def by (auto simp: find_Some_iff)

lemma latest_device_member:
  "dev \<in> set devs \<Longrightarrow> \<exists>dev'. latest_device (dev_device_url dev) devs = Some dev'"
  unfolding latest_device_def by (cases "find (\<lambda>d. dev_device_url d = dev_device_url dev) (rev devs)")
    (auto simp: find_None_iff)

text \<open>
  C5, as the code has it. A second run of the normalizer on the same Setup leaves the device
  mapping with the same keys and each record equal to the one of the first run in every
  field but \<open>last_updated\<close>, which is a clock reading of the run that wrote the record;
  records of devices that are not in the Setup are untouched. After a run every device of
  the Setup has an entry under its URL, built from the last device of the Setup with that
  URL, and its \<open>device_url\<close> is its key. When each record of the mapping has its key as
  \<open>device_url\<close> before a run, so it does after; from construction it always does, and then
  no two entries share an identifier.
\<close>

theorem second_setup_run_changes_only_last_updated:
  "dom (devices (data (snd (process_setup rt su (snd (process_setup rt su s))))))
     = dom (devices (data (snd (process_setup rt su s))))
   \<and> (\<forall>url. rel_option same_but_last_updated
          (devices (data (snd (process_setup rt su s))) url)
          (devices (data (snd (process_setup rt su (snd (process_setup rt su s))))) url))
   \<and> (\<forall>url. latest_device url (su_devices su) = None \<longrightarrow>
          devices (data (snd (process_setup rt su s))) url = devices (data s) url)
   \<and> (\<forall>url dev. latest_device url (su_devices su) = Some dev \<longrightarrow>
          (\<exists>i j. i < now_calls (snd (process_setup rt su s))
               \<and> now_calls (snd (process_setup rt su s)) \<le> j
               \<and> devices (data (snd (process_setup rt su s))) url
                   = Some (device_data_of rt dev (clock rt i))
               \<and> devices (data (snd (process_setup rt su (snd (process_setup rt su s))))) url
                   = Some (device_data_of rt dev (clock rt j))))
   \<and> (\<forall>dev\<in>set (su_devices su).
          \<exists>dd. devices (data (snd (process_setup rt su s))) (dev_device_url dev) = Some dd
             \<and> device_url dd = dev_device_url dev)
   \<and> ((\<forall>url dd. devices (data s) url = Some dd \<longrightarrow> device_url dd = url) \<longrightarrow>
        (\<forall>url dd. devices (data (snd (process_setup rt su s))) url = Some dd \<longrightarrow>
                  device_url dd = url))
   \<and> (\<forall>url dd. devices (data (snd (init rt su))) url = Some dd \<longrightarrow> device_url dd = url)
   \<and> (\<forall>url url' dd dd'. devices (data (snd (init rt su))) url = Some dd \<longrightarrow>
          devices (data (snd (init rt su))) url' = Some dd' \<longrightarrow>
          device_url dd = device_url dd' \<longrightarrow> url = url')"
proof -
  let ?devs = "su_devices su"
  let ?s1 = "snd (process_setup rt su s)"
  let ?s2 = "snd (process_setup rt su ?s1)"
  have d1: "devices (data ?s1) = devices_after rt ?devs (now_calls s) (devices (data s))"
    and n1: "now_calls ?s1 = Suc (now_calls s + length ?devs)"
    by (simp_all add: process_setup_eq)
  have d2: "devices (data ?s2) = devices_after rt ?devs (now_calls ?s1) (devices (data ?s1))"
    by (simp add: process_setup_eq)
  have none: "devices (data (snd (process_setup rt su t))) url = devices (data t) url"
    if "latest_device url ?devs = None" for url t
    using devices_after_other[OF that] by (simp add: process_setup_eq)
  have some: "\<exists>i. now_calls t \<le> i \<and> i < now_calls (snd (process_setup rt su t))
               \<and> devices (data (snd (process_setup rt su t))) url
                   = Some (device_data_of rt dev (clock rt i))"
    if "latest_device url ?devs = Some dev" for url dev t
  proof -
    from devices_after_latest[OF that, of rt "now_calls t" "devices (data t)"]
    obtain i where "i < length ?devs"
      "devices_after rt ?devs (now_calls t) (devices (data t)) url
         = Some (device_data_of rt dev (clock rt (now_calls t + i)))" by blast
    then show ?thesis by (intro exI[of _ "now_calls t + i"]) (simp add: process_setup_eq)
  qed
  have 1: "dom (devices (data ?s2)) = dom (devices (data ?s1))"
    unfolding d2 dom_devices_after unfolding d1 dom_devices_after by auto
  have 2: "rel_option same_but_last_updated (devices (data ?s1) url) (devices (data ?s2) url)" for url
  proof (cases "latest_device url ?devs")
    case None
    have "devices (data ?s2) url = devices (data ?s1) url" using none[OF None] .
    then show ?thesis
      by (cases "devices (data ?s1) url")
         (simp_all add: same_but_last_updated_def)
  next
    case (Some dev)
    from some[OF Some, of s] some[OF Some, of ?s1]
    show ?thesis by (auto simp: same_but_last_updated_device_data_of)
  qed
  have 4: "\<exists>i j. i < now_calls ?s1 \<and> now_calls ?s1 \<le> j
               \<and> devices (data ?s1) url = Some (device_data_of rt dev (clock rt i))
               \<and> devices (data ?s2) url = Some (device_data_of rt dev (clock rt j))"
    if "latest_device url ?devs = Some dev" for url dev
    using some[OF that, of s] some[OF that, of ?s1] by blast
  have 5: "\<exists>dd. devices (data ?s1) (dev_device_url dev) = Some dd
             \<and> device_url dd = dev_device_url dev" if m: "dev \<in> set ?devs" for dev
  proof -
    obtain dev' where l: "latest_device (dev_device_url dev) ?devs = Some dev'"
      using latest_device_member[OF m] by blast
    from some[OF l, of s] latest_device_url[OF l]
    show ?thesis by (auto simp: device_url_device_data_of)
  qed
  have 6: "device_url dd = url"
    if inv: "\<forall>url dd. devices (data t) url = Some dd \<longrightarrow> device_url dd = url"
      and a: "devices (data (snd (process_setup rt su t))) url = Some dd" for url dd t
  proof (cases "latest_device url ?devs")
    case None
    then show ?thesis using none[OF None, of t] inv a by simp
  next
    case (Some dev)
    from some[OF Some, of t] latest_device_url[OF Some] a
    show ?thesis by (auto simp: device_url_device_data_of)
  qed
  have f: "\<forall>url dd. devices (data fresh) url = Some dd \<longrightarrow> device_url dd = url"
    by (simp add: fresh_def)
  have 7: "device_url dd = url" if "devices (data (snd (init rt su))) url = Some dd" for url dd
    using 6[OF f] that by (simp add: init_def)
  have 8: "url = url'" if "devices (data (snd (init rt su))) url = Some dd"
    "devices (data (snd (init rt su))) url' = Some dd'" "device_url dd = device_url dd'"
    for url url' dd dd'
    using 7[OF that(1)] 7[OF that(2)] that(3) by simp
  show ?thesis using 1 2 none[of _ s] 4 5 6[of s] 7 8 by blast
qed

theorem second_setup_run_changes_last_updated:
  "devices (data (snd (process_setup ex_rt ex_setup (snd (init ex_rt ex_setup)))))
     \<noteq> devices (data (snd (init ex_rt ex_setup)))
   \<and> devices (data (snd (init ex_rt ex_setup))) ''dev-1''
        = Some (device_data_of ex_rt ex_device 100)
   \<and> devices (data (snd (process_setup ex_rt ex_setup (snd (init ex_rt ex_setup))))) ''dev-1''
        = Some (device_data_of ex_rt ex_device 102)
   \<and> last_updated (device_data_of ex_rt ex_device 100) = 100
   \<and> last_updated (device_data_of ex_rt ex_device 102) = 102"
proof -
  have a: "devices (data (snd (init ex_rt ex_setup))) ''dev-1''
        = Some (device_data_of ex_rt ex_device 100)"
    by (simp add: ex_init)
  have b: "devices (data (snd (process_setup ex_rt ex_setup (snd (init ex_rt ex_setup))))) ''dev-1''
        = Some (device_data_of ex_rt ex_device 102)"
    by (simp add: ex_init process_setup_eq ex_setup_sel ex_clock_reading ex_device_url)
  have c: "last_updated (device_data_of ex_rt ex_device 100) = 100"
    "last_updated (device_data_of ex_rt ex_device 102) = 102"
    by (simp_all add: device_data_of_def)
  have "device_data_of ex_rt ex_device 102 \<noteq> device_data_of ex_rt ex_device 100"
  proof
    assume "device_data_of ex_rt ex_device 102 = device_data_of ex_rt ex_device 100"
    then have "last_updated (device_data_of ex_rt ex_device 102)
                 = last_updated (device_data_of ex_rt ex_device 100)" by simp
    then show False unfolding c by simp
  qed
  then have "devices (data (snd (process_setup ex_rt ex_setup (snd (init ex_rt ex_setup)))))
     \<noteq> devices (data (snd (init ex_rt ex_setup)))"
    using a b by (metis option.inject)
  then show ?thesis using a b c by blast
qed

theorem second_setup_run_changes_only_last_updated_witness:
  "latest_device ''dev-1'' (su_devices ex_setup) = Some ex_device
   \<and> ex_device \<in> set (su_devices ex_setup)
   \<and> rel_option same_but_last_updated
        (devices (data (snd (init ex_rt ex_setup))) ''dev-1'')
        (devices (data (snd (process_setup ex_rt ex_setup (snd (init ex_rt ex_setup))))) ''dev-1'')
   \<and> dom (devices (data (snd (process_setup ex_rt ex_setup (snd (init ex_rt ex_setup))))))
       = {''dev-1''}
   \<and> device_url (the (devices (data (snd (init ex_rt ex_setup))) ''dev-1'')) = ''dev-1''"
proof -
  have l: "latest_device ''dev-1'' (su_devices ex_setup) = Some ex_device"
    "ex_device \<in> set (su_devices ex_setup)"
    by (simp_all add: latest_device_def ex_setup_sel ex_device_url)
  have d: "dom (devices (data (snd (init ex_rt ex_setup)))) = {''dev-1''}"
    "devices (data (snd (init ex_rt ex_setup))) ''dev-1''
        = Some (device_data_of ex_rt ex_device 100)"
    by (simp_all add: ex_init)
  note t = second_setup_run_changes_only_last_updated[of ex_rt ex_setup fresh, folded init_def]
  have r: "rel_option same_but_last_updated
        (devices (data (snd (init ex_rt ex_setup))) ''dev-1'')
        (devices (data (snd (process_setup ex_rt ex_setup (snd (init ex_rt ex_setup))))) ''dev-1'')"
    using t by blast
  have m: "dom (devices (data (snd (process_setup ex_rt ex_setup (snd (init ex_rt ex_setup))))))
       = dom (devices (data (snd (init ex_rt ex_setup))))"
    using t by blast
  show ?thesis
    using l r m d by (simp add: device_url_device_data_of ex_device_url)
qed

section \<open>State-changed events\<close>

lemma process_event_state_changed:
  assumes "ev_name ev = DEVICE_STATE_CHANGED" "ev_device_states ev = Some dss"
    "has_state_lists dss"
  shows "\<exists>s' l. process_event rt ev s = (Inr (), s') \<and> frame (logged_event rt ev s) s'
      \<and> logged s' = logged s @ [EventInfo (Suc (event_count s)) (ev_name ev),
                                 EventDetails (entry_for rt ev s)] @ l
      \<and> only_changes rt l
      \<and> (\<forall>url dd. devices (data s) url = Some dd \<longrightarrow>
            (\<exists>dd'. devices (data s') url = Some dd'
                  \<and> device_written rt (Suc (now_calls s)) (now_calls s') dd dd'
                       (writes_for url dss)))"
proof -
  let ?t = "logged_event rt ev s"
  from handle_device_states_written[OF assms(3), of rt ?t] obtain s' l where
    h: "handle_device_states rt dss ?t = (Inr (), s')" and f: "frame ?t s'"
    and l: "logged s' = logged ?t @ l" "only_changes rt l"
    and d: "\<forall>url dd. devices (data ?t) url = Some dd \<longrightarrow>
           (\<exists>dd'. devices (data s') url = Some dd'
                 \<and> device_written rt (now_calls ?t) (now_calls s') dd dd' (writes_for url dss))"
    by blast
  have "process_event rt ev s = (Inr (), s')"
    using h assms(1,2) by (simp add: process_event_eq dispatch_def handle_state_change_def)
  moreover have "logged s' = logged s @ [EventInfo (Suc (event_count s)) (ev_name ev),
                                 EventDetails (entry_for rt ev s)] @ l"
    using l(1) by (simp add: logged_event_def)
  moreover have "\<forall>url dd. devices (data s) url = Some dd \<longrightarrow>
            (\<exists>dd'. devices (data s') url = Some dd'
                  \<and> device_written rt (Suc (now_calls s)) (now_calls s') dd dd'
                       (writes_for url dss))"
    using d by (simp add: logged_event_def)
  ultimately show ?thesis using f l(2) by blast
qed

lemma find_SomeD: "List.find P xs = Some x \<Longrightarrow> x \<in> set xs \<and> P x"
  by (induction xs) (auto split: if_splits)

lemma last_write_Some: "last_write n sts = Some st \<Longrightarrow> st \<in> set sts \<and> st_name st = n"
  unfolding last_write_def using find_SomeD[of "\<lambda>x. st_name x = n" "rev sts" st] by simp

lemma last_write_member: "st \<in> set sts \<Longrightarrow> \<exists>st'. last_write (st_name st) sts = Some st'"
  unfolding last_write_def
  by (cases "find (\<lambda>x. st_name x = st_name st) (rev sts)") (auto simp: find_None_iff)

lemma last_write_None: "last_write n sts = None \<longleftrightarrow> n \<notin> st_name ` set sts"
  unfolding last_write_def by (auto simp: find_None_iff)

lemma writes_for_member:
  assumes m: "ds \<in> set dss" and st: "ds_states ds = Some sts"
  shows "set sts \<subseteq> set (writes_for (ds_device_url ds) dss)"
proof -
  let ?f = "\<lambda>x. if ds_device_url x = ds_device_url ds
                then (case ds_states x of None \<Rightarrow> [] | Some l \<Rightarrow> l) else []"
  have a: "set (writes_for (ds_device_url ds) dss) = (\<Union>x\<in>set dss. set (?f x))"
    unfolding writes_for_def by (simp only: set_concat set_map image_image)
  have b: "set sts = set (?f ds)" using st by simp
  show ?thesis unfolding a b using m by blast
qed

lemma device_written_entry:
  assumes "device_written rt n0 n1 dd dd' sts" and "last_write n sts = Some st"
  shows "states dd' n = Some (state_entry_of st)"
    and "\<exists>k. n0 \<le> k \<and> k < n1 \<and> last_updated dd' = clock rt k"
proof -
  show "states dd' n = Some (state_entry_of st)"
    using assms by (simp add: device_written_def written_lookup)
  have "sts \<noteq> []" using last_write_Some[OF assms(2)] by auto
  then show "\<exists>k. n0 \<le> k \<and> k < n1 \<and> last_updated dd' = clock rt k"
    using assms(1) by (simp add: device_written_def)
qed


text \<open>
  C3. Two state-changed events processed one after the other, each writing the state \<open>n\<close>
  of a device \<open>d\<close> of the snapshot: after the first the state holds the value the first
  event wrote last, after the second the value the second event wrote last, and the
  device's \<open>last_updated\<close> is then a clock reading taken while the second event was
  processed.
\<close>

theorem second_state_change_wins:
  assumes "devices (data s) d = Some dd"
    and "ev_name e1 = DEVICE_STATE_CHANGED" and "ev_device_states e1 = Some dss1"
    and "has_state_lists dss1" and "last_write n (writes_for d dss1) = Some st1"
    and "ev_name e2 = DEVICE_STATE_CHANGED" and "ev_device_states e2 = Some dss2"
    and "has_state_lists dss2" and "last_write n (writes_for d dss2) = Some st2"
  shows "\<exists>dd1 dd2 k1 k2.
      fst (process_event rt e1 s) = Inr ()
    \<and> fst (process_event rt e2 (snd (process_event rt e1 s))) = Inr ()
    \<and> devices (data (snd (process_event rt e1 s))) d = Some dd1
    \<and> devices (data (snd (process_event rt e2 (snd (process_event rt e1 s))))) d = Some dd2
    \<and> states dd1 n = Some (state_entry_of st1)
    \<and> states dd2 n = Some (state_entry_of st2)
    \<and> map_option se_value (states dd2 n) = Some (st_value st2)
    \<and> now_calls s < k1 \<and> k1 < now_calls (snd (process_event rt e1 s))
    \<and> last_updated dd1 = clock rt k1
    \<and> now_calls (snd (process_event rt e1 s)) < k2
    \<and> k2 < now_calls (snd (process_event rt e2 (snd (process_event rt e1 s))))
    \<and> last_updated dd2 = clock rt k2"
proof -
  obtain s1 l1 where p1: "process_event rt e1 s = (Inr (), s1)"
    and a1: "\<forall>url dd. devices (data s) url = Some dd \<longrightarrow>
            (\<exists>dd'. devices (data s1) url = Some dd'
                  \<and> device_written rt (Suc (now_calls s)) (now_calls s1) dd dd'
                       (writes_for url dss1))"
    using process_event_state_changed[OF assms(2,3,4), of rt s] by blast
  obtain dd1 where d1: "devices (data s1) d = Some dd1"
    and w1: "device_written rt (Suc (now_calls s)) (now_calls s1) dd dd1 (writes_for d dss1)"
    using a1 assms(1) by blast
  obtain s2 l2 where p2: "process_event rt e2 s1 = (Inr (), s2)"
    and a2: "\<forall>url dd. devices (data s1) url = Some dd \<longrightarrow>
            (\<exists>dd'. devices (data s2) url = Some dd'
                  \<and> device_written rt (Suc (now_calls s1)) (now_calls s2) dd dd'
                       (writes_for url dss2))"
    using process_event_state_changed[OF assms(6,7,8), of rt s1] by blast
  obtain dd2 where d2: "devices (data s2) d = Some dd2"
    and w2: "device_written rt (Suc (now_calls s1)) (now_calls s2) dd1 dd2 (writes_for d dss2)"
    using a2 d1 by blast
  have e1: "states dd1 n = Some (state_entry_of st1)"
    using device_written_entry(1)[OF w1 assms(5)] .
  obtain k1 where k1: "Suc (now_calls s) \<le> k1" "k1 < now_calls s1"
    "last_updated dd1 = clock rt k1"
    using device_written_entry(2)[OF w1 assms(5)] by blast
  have e2: "states dd2 n = Some (state_entry_of st2)"
    using device_written_entry(1)[OF w2 assms(9)] .
  obtain k2 where k2: "Suc (now_calls s1) \<le> k2" "k2 < now_calls s2"
    "last_updated dd2 = clock rt k2"
    using device_written_entry(2)[OF w2 assms(9)] by blast
  have v: "map_option se_value (states dd2 n) = Some (st_value st2)"
    unfolding e2 by (simp add: state_entry_of_def)
  have q1: "fst (process_event rt e1 s) = Inr ()" "snd (process_event rt e1 s) = s1"
    using p1 by simp_all
  have q2: "fst (process_event rt e2 s1) = Inr ()" "snd (process_event rt e2 s1) = s2"
    using p2 by simp_all
  have "fst (process_event rt e1 s) = Inr ()
    \<and> fst (process_event rt e2 s1) = Inr ()
    \<and> devices (data s1) d = Some dd1
    \<and> devices (data s2) d = Some dd2
    \<and> states dd1 n = Some (state_entry_of st1)
    \<and> states dd2 n = Some (state_entry_of st2)
    \<and> map_option se_value (states dd2 n) = Some (st_value st2)
    \<and> now_calls s < k1 \<and> k1 < now_calls s1
    \<and> last_updated dd1 = clock rt k1
    \<and> now_calls s1 < k2
    \<and> k2 < now_calls s2
    \<and> last_updated dd2 = clock rt k2"
    using q1(1) q2(1) d1 d2 e1 e2 v k1 k2 by simp
  then show ?thesis unfolding q1(2) q2(2) by blast
qed

lemma ex_event_sel:
  "ev_name (ex_event v) = DEVICE_STATE_CHANGED"
  "ev_device_states (ex_event v) = Some [\<lparr>ds_device_url = ''dev-1'', ds_states = Some [ex_state v]\<rparr>]"
  by (simp_all add: ex_event_def)

lemma ex_payload:
  "has_state_lists [\<lparr>ds_device_url = ''dev-1'', ds_states = Some [ex_state v]\<rparr>]"
  "last_write ''core:TemperatureState''
     (writes_for ''dev-1'' [\<lparr>ds_device_url = ''dev-1'', ds_states = Some [ex_state v]\<rparr>])
     = Some (ex_state v)"
  by (simp_all add: has_state_lists_def last_write_def writes_for_def ex_state_def)

lemma ex_event_run:
  "process_event ex_rt (ex_event v) s =
     (case devices (data s) ''dev-1'' of
        None \<Rightarrow> (Inr (), logged_event ex_rt (ex_event v) s)
      | Some dd \<Rightarrow> write_state ex_rt ''dev-1'' (ex_state v) (logged_event ex_rt (ex_event v) s))"
  by (auto simp: process_event_eq dispatch_def handle_state_change_def handle_device_state_def
      ex_event_sel logged_event_devices split: option.splits sum.splits prod.splits)

lemma ex_two_events:
  "now_calls (snd (process_event ex_rt (ex_event 46) (snd (init ex_rt ex_setup)))) = 4"
  "now_calls (snd (process_event ex_rt (ex_event 47)
      (snd (process_event ex_rt (ex_event 46) (snd (init ex_rt ex_setup)))))) = 6"
  "map_option last_updated (devices (data (snd (process_event ex_rt (ex_event 47)
      (snd (process_event ex_rt (ex_event 46) (snd (init ex_rt ex_setup))))))) ''dev-1'') = Some 105"
  "map_option (\<lambda>dd. map_option se_value (states dd ''core:TemperatureState''))
     (devices (data (snd (process_event ex_rt (ex_event 47)
      (snd (process_event ex_rt (ex_event 46) (snd (init ex_rt ex_setup))))))) ''dev-1'')
     = Some (Some (PInt 47))"
  by (simp_all add: ex_event_run ex_init logged_event_def write_state_def now_def set_device_def
      log_line_def Let_def ex_clock_reading ex_state_def)


theorem second_state_change_wins_witness:
  "devices (data (snd (init ex_rt ex_setup))) ''dev-1'' = Some (device_data_of ex_rt ex_device 100)
   \<and> ev_name (ex_event 47) = DEVICE_STATE_CHANGED
   \<and> has_state_lists [\<lparr>ds_device_url = ''dev-1'', ds_states = Some [ex_state 47]\<rparr>]
   \<and> last_write ''core:TemperatureState''
        (writes_for ''dev-1'' [\<lparr>ds_device_url = ''dev-1'', ds_states = Some [ex_state 47]\<rparr>])
        = Some (ex_state 47)
   \<and> st_value (ex_state 47) = PInt 47
   \<and> (\<exists>dd2 k2. devices (data (snd (process_event ex_rt (ex_event 47)
            (snd (process_event ex_rt (ex_event 46) (snd (init ex_rt ex_setup))))))) ''dev-1''
          = Some dd2
        \<and> map_option se_value (states dd2 ''core:TemperatureState'') = Some (PInt 47)
        \<and> 4 < k2 \<and> k2 < 6 \<and> last_updated dd2 = clock ex_rt k2)
   \<and> map_option last_updated (devices (data (snd (process_event ex_rt (ex_event 47)
            (snd (process_event ex_rt (ex_event 46) (snd (init ex_rt ex_setup))))))) ''dev-1'')
        = Some 105"
proof -
  have d: "devices (data (snd (init ex_rt ex_setup))) ''dev-1''
             = Some (device_data_of ex_rt ex_device 100)"
    by (simp add: ex_init)
  have v: "st_value (ex_state 47) = PInt 47" by (simp add: ex_state_def)
  from second_state_change_wins[OF d ex_event_sel(1) ex_event_sel(2) ex_payload(1) ex_payload(2)
        ex_event_sel(1) ex_event_sel(2) ex_payload(1) ex_payload(2), where rt = ex_rt]
  obtain dd2 k2 where
    "devices (data (snd (process_event ex_rt (ex_event 47)
            (snd (process_event ex_rt (ex_event 46) (snd (init ex_rt ex_setup))))))) ''dev-1''
          = Some dd2"
    "map_option se_value (states dd2 ''core:TemperatureState'') = Some (st_value (ex_state 47))"
    "now_calls (snd (process_event ex_rt (ex_event 46) (snd (init ex_rt ex_setup)))) < k2"
    "k2 < now_calls (snd (process_event ex_rt (ex_event 47)
            (snd (process_event ex_rt (ex_event 46) (snd (init ex_rt ex_setup))))))"
    "last_updated dd2 = clock ex_rt k2"
    by blast
  then have "\<exists>dd2 k2. devices (data (snd (process_event ex_rt (ex_event 47)
            (snd (process_event ex_rt (ex_event 46) (snd (init ex_rt ex_setup))))))) ''dev-1''
          = Some dd2
        \<and> map_option se_value (states dd2 ''core:TemperatureState'') = Some (PInt 47)
        \<and> 4 < k2 \<and> k2 < 6 \<and> last_updated dd2 = clock ex_rt k2"
    unfolding ex_two_events(1,2) v by blast
  then show ?thesis using d v ex_event_sel(1) ex_payload ex_two_events(3) by blast
qed

section \<open>What a state-changed event does to a known device\<close>

text \<open>
  C7, as the code has it. For a state-changed event whose payload elements all have a state
  list, and an element of it for a device of the snapshot: processing raises nothing; each
  state named in the element's list holds afterwards the entry (value, type, raw) of the
  last state of that name the event writes to the device, and states the event does not
  name, like every other field of the record but \<open>last_updated\<close>, are as before; after the
  two lines that log the event itself the logger gets state-change lines only, each for a
  write whose old value differs from the new one, and one write logs its line exactly when
  the stored value (\<^verbatim>\<open>None\<close> when the state is new) differs from the new one; and when
  the element's state list is not empty, \<open>last_updated\<close> is a clock reading taken while the
  event was processed, whether or not any value changed. When the event writes no state
  to the device, \<open>last_updated\<close> stays as it was.
\<close>

theorem state_change_event_overwrites_states:
  assumes "ev_name ev = DEVICE_STATE_CHANGED" and "ev_device_states ev = Some dss"
    and "has_state_lists dss" and "ds \<in> set dss" and "ds_states ds = Some sts"
    and "devices (data s) (ds_device_url ds) = Some dd"
  shows "\<exists>dd' l.
      fst (process_event rt ev s) = Inr ()
    \<and> devices (data (snd (process_event rt ev s))) (ds_device_url ds) = Some dd'
    \<and> (\<forall>st\<in>set sts. \<exists>st'. last_write (st_name st) (writes_for (ds_device_url ds) dss) = Some st'
            \<and> states dd' (st_name st) = Some (state_entry_of st'))
    \<and> (\<forall>n. last_write n (writes_for (ds_device_url ds) dss) = None \<longrightarrow>
            states dd' n = states dd n)
    \<and> dd'\<lparr>states := states dd, last_updated := last_updated dd\<rparr> = dd
    \<and> logged (snd (process_event rt ev s))
        = logged s @ [EventInfo (Suc (event_count s)) (ev_name ev),
                      EventDetails (entry_for rt ev s)] @ l
    \<and> only_changes rt l
    \<and> (\<forall>t u st0 dd0. devices (data t) u = Some dd0 \<longrightarrow>
          logged (snd (write_state rt u st0 t))
            = logged t @
              (if py_ne rt (case states dd0 (st_name st0) of None \<Rightarrow> PNone
                            | Some en \<Rightarrow> se_value en) (st_value st0)
               then [StateChange (label dd0) (st_name st0)
                       (case states dd0 (st_name st0) of None \<Rightarrow> PNone
                        | Some en \<Rightarrow> se_value en) (st_value st0)]
               else []))
    \<and> (sts \<noteq> [] \<longrightarrow>
          (\<exists>k. now_calls s < k \<and> k < now_calls (snd (process_event rt ev s))
              \<and> last_updated dd' = clock rt k))
    \<and> (writes_for (ds_device_url ds) dss = [] \<longrightarrow> last_updated dd' = last_updated dd)"
proof -
  let ?u = "ds_device_url ds"
  obtain s' l where p: "process_event rt ev s = (Inr (), s')"
    and lg: "logged s' = logged s @ [EventInfo (Suc (event_count s)) (ev_name ev),
                                 EventDetails (entry_for rt ev s)] @ l"
    and oc: "only_changes rt l"
    and a: "\<forall>url dd. devices (data s) url = Some dd \<longrightarrow>
            (\<exists>dd'. devices (data s') url = Some dd'
                  \<and> device_written rt (Suc (now_calls s)) (now_calls s') dd dd'
                       (writes_for url dss))"
    using process_event_state_changed[OF assms(1,2,3), of rt s] by blast
  obtain dd' where d: "devices (data s') ?u = Some dd'"
    and w: "device_written rt (Suc (now_calls s)) (now_calls s') dd dd' (writes_for ?u dss)"
    using a assms(6) by blast
  have q: "fst (process_event rt ev s) = Inr ()" "snd (process_event rt ev s) = s'"
    using p by simp_all
  have sub: "set sts \<subseteq> set (writes_for ?u dss)"
    using writes_for_member[OF assms(4,5)] .
  have st: "states dd' = written (states dd) (writes_for ?u dss)"
    and rest: "dd'\<lparr>states := states dd, last_updated := last_updated dd\<rparr> = dd"
    using w by (simp_all add: device_written_def)
  have 1: "\<forall>st\<in>set sts. \<exists>st'. last_write (st_name st) (writes_for ?u dss) = Some st'
            \<and> states dd' (st_name st) = Some (state_entry_of st')"
  proof
    fix x assume "x \<in> set sts"
    then have "x \<in> set (writes_for ?u dss)" using sub by blast
    then obtain x' where x': "last_write (st_name x) (writes_for ?u dss) = Some x'"
      using last_write_member by blast
    have "states dd' (st_name x) = Some (state_entry_of x')"
      unfolding st written_lookup x' by simp
    then show "\<exists>st'. last_write (st_name x) (writes_for ?u dss) = Some st'
            \<and> states dd' (st_name x) = Some (state_entry_of st')" using x' by blast
  qed
  have 2: "\<forall>n. last_write n (writes_for ?u dss) = None \<longrightarrow> states dd' n = states dd n"
    unfolding st written_lookup by simp
  have 3: "\<forall>t u st0 dd0. devices (data t) u = Some dd0 \<longrightarrow>
          logged (snd (write_state rt u st0 t))
            = logged t @
              (if py_ne rt (case states dd0 (st_name st0) of None \<Rightarrow> PNone
                            | Some en \<Rightarrow> se_value en) (st_value st0)
               then [StateChange (label dd0) (st_name st0)
                       (case states dd0 (st_name st0) of None \<Rightarrow> PNone
                        | Some en \<Rightarrow> se_value en) (st_value st0)]
               else [])"
  proof (intro allI impI)
    fix t :: coordinator and u st0 dd0 assume k: "devices (data t) u = Some dd0"
    show "logged (snd (write_state rt u st0 t))
            = logged t @
              (if py_ne rt (case states dd0 (st_name st0) of None \<Rightarrow> PNone
                            | Some en \<Rightarrow> se_value en) (st_value st0)
               then [StateChange (label dd0) (st_name st0)
                       (case states dd0 (st_name st0) of None \<Rightarrow> PNone
                        | Some en \<Rightarrow> se_value en) (st_value st0)]
               else [])"
      unfolding write_state_known[OF k] by simp
  qed
  have 4: "sts \<noteq> [] \<longrightarrow>
          (\<exists>k. now_calls s < k \<and> k < now_calls s' \<and> last_updated dd' = clock rt k)"
  proof
    assume "sts \<noteq> []"
    then have "writes_for ?u dss \<noteq> []" using sub by auto
    then obtain k where "Suc (now_calls s) \<le> k" "k < now_calls s'" "last_updated dd' = clock rt k"
      using w by (auto simp: device_written_def)
    then show "\<exists>k. now_calls s < k \<and> k < now_calls s' \<and> last_updated dd' = clock rt k"
      by (intro exI[of _ k]) simp
  qed
  have 5: "writes_for ?u dss = [] \<longrightarrow> last_updated dd' = last_updated dd"
    using w by (simp add: device_written_def)
  show ?thesis
    unfolding q using q(1) d 1 2 rest lg oc 3 4 5 by blast
qed


lemma ex_ne: "py_ne ex_rt a b = (a \<noteq> b)"
  by (simp add: ex_rt_def)

theorem empty_state_list_leaves_last_updated:
  "ev_name ex_empty_event = DEVICE_STATE_CHANGED
   \<and> ev_device_states ex_empty_event
        = Some [\<lparr>ds_device_url = ''dev-1'', ds_states = Some []\<rparr>]
   \<and> devices (data (snd (init ex_rt ex_setup))) ''dev-1''
        = Some (device_data_of ex_rt ex_device 100)
   \<and> fst (process_event ex_rt ex_empty_event (snd (init ex_rt ex_setup))) = Inr ()
   \<and> map timestamp
        (events_log (data (snd (process_event ex_rt ex_empty_event (snd (init ex_rt ex_setup))))))
        = [102]
   \<and> devices (data (snd (process_event ex_rt ex_empty_event (snd (init ex_rt ex_setup))))) ''dev-1''
        = Some (device_data_of ex_rt ex_device 100)
   \<and> last_updated (device_data_of ex_rt ex_device 100) = 100"
  by (simp add: process_event_eq dispatch_def handle_state_change_def handle_device_state_def
      ex_empty_event_def logged_event_def ex_init keep_last_1000_def entry_for_def
      ex_clock_reading device_data_of_def)

theorem state_change_event_overwrites_states_witness:
  "ev_name (ex_event 47) = DEVICE_STATE_CHANGED
   \<and> ev_device_states (ex_event 47)
        = Some [\<lparr>ds_device_url = ''dev-1'', ds_states = Some [ex_state 47]\<rparr>]
   \<and> has_state_lists [\<lparr>ds_device_url = ''dev-1'', ds_states = Some [ex_state 47]\<rparr>]
   \<and> devices (data (snd (init ex_rt ex_setup))) ''dev-1''
        = Some (device_data_of ex_rt ex_device 100)
   \<and> (\<exists>dd' l. devices (data (snd (process_event ex_rt (ex_event 47) (snd (init ex_rt ex_setup)))))
                 ''dev-1'' = Some dd'
         \<and> states dd' ''core:TemperatureState'' = Some (state_entry_of (ex_state 47))
         \<and> only_changes ex_rt l
         \<and> logged (snd (process_event ex_rt (ex_event 47) (snd (init ex_rt ex_setup))))
             = logged (snd (init ex_rt ex_setup))
               @ [EventInfo (Suc (event_count (snd (init ex_rt ex_setup)))) (ev_name (ex_event 47)),
                  EventDetails (entry_for ex_rt (ex_event 47) (snd (init ex_rt ex_setup)))] @ l)
   \<and> map_option last_updated
        (devices (data (snd (process_event ex_rt (ex_event 47) (snd (init ex_rt ex_setup))))) ''dev-1'')
        = Some 103
   \<and> drop 3 (logged (snd (process_event ex_rt (ex_event 47) (snd (init ex_rt ex_setup)))))
        = [StateChange ''Boiler'' ''core:TemperatureState'' (PInt 45) (PInt 47)]"
proof -
  let ?s = "snd (init ex_rt ex_setup)"
  let ?ds = "\<lparr>ds_device_url = ''dev-1'', ds_states = Some [ex_state 47]\<rparr>"
  have d: "devices (data ?s) (ds_device_url ?ds) = Some (device_data_of ex_rt ex_device 100)"
    by (simp add: ex_init)
  have m: "?ds \<in> set [?ds]" "ds_states ?ds = Some [ex_state 47]" by simp_all
  have n: "st_name (ex_state 47) = ''core:TemperatureState''" by (simp add: ex_state_def)
  have lw: "last_write ''core:TemperatureState'' (writes_for ''dev-1'' [?ds]) = Some (ex_state 47)"
    by (rule ex_payload(2))
  from state_change_event_overwrites_states[OF ex_event_sel(1) ex_event_sel(2) ex_payload(1)
         m(1) m(2) d, where rt = ex_rt]
  obtain dd' l where
    a: "devices (data (snd (process_event ex_rt (ex_event 47) ?s))) (ds_device_url ?ds) = Some dd'"
    and b: "\<forall>st\<in>set [ex_state 47]. \<exists>st'.
              last_write (st_name st) (writes_for (ds_device_url ?ds) [?ds]) = Some st'
            \<and> states dd' (st_name st) = Some (state_entry_of st')"
    and c: "only_changes ex_rt l"
    and e: "logged (snd (process_event ex_rt (ex_event 47) ?s))
             = logged ?s @ [EventInfo (Suc (event_count ?s)) (ev_name (ex_event 47)),
                  EventDetails (entry_for ex_rt (ex_event 47) ?s)] @ l"
    by blast
  have "states dd' ''core:TemperatureState'' = Some (state_entry_of (ex_state 47))"
    using b n lw by simp
  then have x: "\<exists>dd' l. devices (data (snd (process_event ex_rt (ex_event 47) ?s))) ''dev-1'' = Some dd'
         \<and> states dd' ''core:TemperatureState'' = Some (state_entry_of (ex_state 47))
         \<and> only_changes ex_rt l
         \<and> logged (snd (process_event ex_rt (ex_event 47) ?s))
             = logged ?s @ [EventInfo (Suc (event_count ?s)) (ev_name (ex_event 47)),
                  EventDetails (entry_for ex_rt (ex_event 47) ?s)] @ l"
    using a c e by auto
  have y: "map_option last_updated
        (devices (data (snd (process_event ex_rt (ex_event 47) ?s))) ''dev-1'') = Some 103"
    "drop 3 (logged (snd (process_event ex_rt (ex_event 47) ?s)))
        = [StateChange ''Boiler'' ''core:TemperatureState'' (PInt 45) (PInt 47)]"
    by (simp_all add: ex_event_run ex_init logged_event_def write_state_def now_def set_device_def
      log_line_def Let_def ex_clock_reading ex_state_def device_data_of_def ex_device_def
      extract_states_def state_entry_of_def ex_ne)
  have d': "devices (data ?s) ''dev-1'' = Some (device_data_of ex_rt ex_device 100)"
    using d by simp
  show ?thesis using ex_event_sel[of 47] ex_payload(1)[of 47] d' x y by blast
qed

end
